theory Spec2Isabelle
  imports Complex_Main "HOL-Library.Product_Lexorder"
begin

section \<open>JavaScript values\<close>

text \<open>
  The values that reach the outreach plan engine come from \<^verbatim>\<open>JSON.parse\<close> and from
  SQLite rows. A JSON number is a double; JSON text cannot denote NaN. The code only compares
  numbers with \<^verbatim>\<open><\<close> and \<^verbatim>\<open>>\<close> and adds them to a day of the month, all of which
  are exact on the value of the double, so a number is modelled by its rational value. (A
  literal that overflows to an infinity is compared like any number above the horizon or
  below zero.) Fields hold scalars; a nested array or object as a field value is outside the
  model.
\<close>

datatype jsval = JUndefined | JNull | JBool bool | JNum rat | JStr string

text \<open>\<^verbatim>\<open>!v\<close> is \<open>\<not> truthy v\<close>; \<^verbatim>\<open>a || b\<close> is \<open>js_or a b\<close>.\<close>

fun truthy :: "jsval \<Rightarrow> bool" where
  "truthy JUndefined = False"
| "truthy JNull = False"
| "truthy (JBool b) = b"
| "truthy (JNum n) = (n \<noteq> 0)"
| "truthy (JStr s) = (s \<noteq> [])"

definition js_or :: "jsval \<Rightarrow> jsval \<Rightarrow> jsval" where
  "js_or a b = (if truthy a then a else b)"

text \<open>
  \<^verbatim>\<open>String(v)\<close>. The text of a number is produced by the runtime's
  \<^verbatim>\<open>Number::toString\<close> (shortest round-trip digits), which is taken as the parameter
  \<open>numText\<close>; nothing below depends on which text it yields.
\<close>

fun js_String :: "(rat \<Rightarrow> string) \<Rightarrow> jsval \<Rightarrow> string" where
  "js_String numText JUndefined = ''undefined''"
| "js_String numText JNull = ''null''"
| "js_String numText (JBool b) = (if b then ''true'' else ''false'')"
| "js_String numText (JNum n) = numText n"
| "js_String numText (JStr s) = s"

text \<open>
  \<^verbatim>\<open>toLowerCase()\<close> on the letters A to Z; other characters are kept. (The runtime also
  maps non-ASCII capitals; the only one whose lower case is an ASCII letter by itself is the
  Kelvin sign, giving \<open>k\<close>.)
\<close>

definition lower_char :: "char \<Rightarrow> char" where
  "lower_char c =
     (case map_of (zip ''ABCDEFGHIJKLMNOPQRSTUVWXYZ'' ''abcdefghijklmnopqrstuvwxyz'') c of
        Some l \<Rightarrow> l
      | None \<Rightarrow> c)"

definition toLowerCase :: "string \<Rightarrow> string" where
  "toLowerCase s = map lower_char s"

section \<open>Intent normalizer\<close>

text \<open>
  \<^verbatim>\<open>normalizeIntentForStage\<close>. The block for \<open>first_contact\<close> returns from within or
  falls through to the check against the allowed intents, \<open>checked\<close> below.
\<close>

definition allowedIntents :: "string list" where
  "allowedIntents =
     [''first_contact'', ''post_call_summary'', ''proposal_followup'', ''nurture_checkin'',
      ''deal_recovery'', ''meeting_confirmation'', ''meeting_reminder'', ''invoice_gentle'',
      ''invoice_firm'', ''invoice_final'']"

definition normalizeIntentForStage ::
  "(rat \<Rightarrow> string) \<Rightarrow> jsval \<Rightarrow> jsval \<Rightarrow> bool \<Rightarrow> string" where
  "normalizeIntentForStage numText stage originalIntent hasAnyContact =
     (if \<not> truthy originalIntent then ''nurture_checkin''
      else
        let intent = toLowerCase (js_String numText originalIntent);
            stageLower = (if truthy stage then toLowerCase (js_String numText stage) else []);
            checked = (if intent \<in> set allowedIntents then intent else ''nurture_checkin'')
        in
          if intent = ''first_contact'' then
            (if stageLower = ''new'' then ''first_contact''
             else if stageLower = ''qualified'' then ''nurture_checkin''
             else if stageLower = ''proposal sent'' \<or> stageLower = ''proposal_sent''
               then ''proposal_followup''
             else if stageLower = ''won'' then ''post_call_summary''
             else if stageLower = ''lost'' then ''deal_recovery''
             else if hasAnyContact then ''nurture_checkin''
             else checked)
          else checked)"

section \<open>Dates\<close>

text \<open>
  A \<^verbatim>\<open>Date\<close> read in local time: the number of the local calendar day and the time of
  day. \<^verbatim>\<open>setDate(getDate() + n)\<close> moves the day of the month by \<open>n\<close> and lets the
  calendar carry into the next months, which on day numbers is an addition; the runtime drops
  a fractional part of the new day of the month, here for \<open>n \<ge> 0\<close>, the only use.
  \<^verbatim>\<open>toISOString()\<close> writes the instant as text; the model keeps the \<^verbatim>\<open>Date\<close> itself.
  The bounded range of \<^verbatim>\<open>Date\<close> (about 100 million days around 1970) is not modelled.
\<close>

record jsdate =
  day :: int
  hours :: nat
  minutes :: nat
  seconds :: nat
  milliseconds :: nat

definition setHours :: "nat \<Rightarrow> nat \<Rightarrow> nat \<Rightarrow> nat \<Rightarrow> jsdate \<Rightarrow> jsdate" where
  "setHours h m s ms d = d\<lparr>hours := h, minutes := m, seconds := s, milliseconds := ms\<rparr>"

definition setDate_getDate_plus :: "rat \<Rightarrow> jsdate \<Rightarrow> jsdate" where
  "setDate_getDate_plus n d = d\<lparr>day := day d + \<lfloor>n\<rfloor>\<rparr>"

text \<open>
  SQLite's \<^verbatim>\<open>datetime(x)\<close> has a resolution of one second; it is the key of
  \<^verbatim>\<open>ORDER BY\<close>.
\<close>

definition datetime :: "jsdate \<Rightarrow> int" where
  "datetime d = ((day d * 24 + int (hours d)) * 60 + int (minutes d)) * 60 + int (seconds d)"

section \<open>Candidates, validation and scheduling\<close>

text \<open>
  A candidate is an element of the generator's \<^verbatim>\<open>steps\<close> array: an object with the
  properties \<^verbatim>\<open>offsetDays\<close>, \<^verbatim>\<open>channel\<close>, \<^verbatim>\<open>intent\<close> and \<^verbatim>\<open>goal\<close>, an absent one
  being \<open>JUndefined\<close>. An element that is a number, a string, a boolean or an array has
  none of the four properties and behaves as the object without them; reading a property of
  \<^verbatim>\<open>null\<close> throws. \<open>StepsAbsent\<close> is a falsy \<^verbatim>\<open>steps\<close> (so \<^verbatim>\<open>modelSteps || []\<close> is
  the empty array), \<open>StepsOther\<close> a truthy value that is not an array and so has no
  \<^verbatim>\<open>map\<close>.
\<close>

record candidate =
  offsetDays :: jsval
  channel :: jsval
  intent :: jsval
  goal :: jsval

datatype element = ENull | EObj candidate

datatype steps_value = StepsAbsent | StepsArray "element list" | StepsOther

text \<open>A step as handed to the store, and a row of the table \<^verbatim>\<open>outreach_steps\<close>.\<close>

record step =
  step_id :: "string option"
  step_dealId :: "string option"
  step_dueDate :: "jsdate option"
  step_channel :: "string option"
  step_intent :: "string option"
  step_goal :: jsval
  step_status :: "string option"

record outreach_step =
  row_id :: string
  row_dealId :: string
  row_dueDate :: jsdate
  row_channel :: string
  row_intent :: string
  row_goal :: jsval
  row_status :: string
  row_createdAt :: nat
  row_completedAt :: "nat option"

datatype db_error = SQLITE_CONSTRAINT | SQLITE_ERROR

datatype js_error = TypeError | Rejected db_error | NeverSettled

definition allowedChannels :: "string list" where
  "allowedChannels = [''email'', ''whatsapp'', ''sms'', ''call_script'']"

text \<open>\<^verbatim>\<open>list.includes(v)\<close> for a list of strings: strict equality with one of them.\<close>

fun js_includes :: "string list \<Rightarrow> jsval \<Rightarrow> bool" where
  "js_includes xs (JStr s) = (s \<in> set xs)"
| "js_includes xs _ = False"

fun text_of :: "jsval \<Rightarrow> string option" where
  "text_of (JStr s) = Some s"
| "text_of _ = None"

text \<open>
  What one request reads from outside: the text the runtime gives a number, the results of
  the successive calls of \<^verbatim>\<open>uuidv4()\<close>, \<^verbatim>\<open>new Date()\<close> and the timestamp of the clock.
  The clock is read once for a request: the readings that the code makes while it serves one
  request agree.
\<close>

record runtime =
  numText :: "rat \<Rightarrow> string"
  uuidv4 :: "nat \<Rightarrow> string"
  today :: jsdate
  now :: nat

text \<open>
  The first half of \<^verbatim>\<open>buildAndStoreSteps\<close>: \<^verbatim>\<open>(modelSteps || []).map(...)\<close>, whose
  callback copies the candidate with its intent replaced by the normalized one.
\<close>

definition map_step :: "runtime \<Rightarrow> jsval \<Rightarrow> bool \<Rightarrow> candidate \<Rightarrow> candidate" where
  "map_step rt stage hasAnyContact c =
     c\<lparr>intent := JStr (normalizeIntentForStage (numText rt) stage (intent c) hasAnyContact)\<rparr>"

fun normalizedSteps ::
  "runtime \<Rightarrow> jsval \<Rightarrow> bool \<Rightarrow> element list \<Rightarrow> js_error + candidate list" where
  "normalizedSteps rt stage hasAnyContact [] = Inr []"
| "normalizedSteps rt stage hasAnyContact (ENull # es) = Inl TypeError"
| "normalizedSteps rt stage hasAnyContact (EObj c # es) =
     (case normalizedSteps rt stage hasAnyContact es of
        Inl e \<Rightarrow> Inl e
      | Inr cs \<Rightarrow> Inr (map_step rt stage hasAnyContact c # cs))"

text \<open>
  The callback of the \<^verbatim>\<open>forEach\<close> over the normalized steps: the two guards, then the
  due date and the step it pushes; \<open>None\<close> when it returns early. \<open>k\<close> is the number of
  \<^verbatim>\<open>uuidv4()\<close> calls made so far. (After the \<^verbatim>\<open>map\<close> every step is an object literal,
  so \<^verbatim>\<open>typeof step !== 'object'\<close> is false.)
\<close>

definition forEach_step :: "runtime \<Rightarrow> string \<Rightarrow> int \<Rightarrow> candidate \<Rightarrow> nat \<Rightarrow> step option" where
  "forEach_step rt dealId horizon c k =
     (case offsetDays c of
        JNum n \<Rightarrow>
          if n < 0 \<or> n > of_int horizon then None
          else if \<not> js_includes allowedChannels (channel c) \<or> \<not> js_includes allowedIntents (intent c)
            then None
          else
            let due = setDate_getDate_plus n (setHours 9 0 0 0 (today rt))
            in Some \<lparr>step_id = Some (uuidv4 rt k),
                     step_dealId = Some dealId,
                     step_dueDate = Some due,
                     step_channel = text_of (channel c),
                     step_intent = text_of (intent c),
                     step_goal = js_or (goal c) JNull,
                     step_status = Some ''pending''\<rparr>
      | _ \<Rightarrow> None)"

fun stepsToInsert ::
  "runtime \<Rightarrow> string \<Rightarrow> int \<Rightarrow> candidate list \<Rightarrow> nat \<Rightarrow> step list \<times> nat" where
  "stepsToInsert rt dealId horizon [] k = ([], k)"
| "stepsToInsert rt dealId horizon (c # cs) k =
     (case forEach_step rt dealId horizon c k of
        None \<Rightarrow> stepsToInsert rt dealId horizon cs k
      | Some s \<Rightarrow>
          (case stepsToInsert rt dealId horizon cs (Suc k) of (rest, k') \<Rightarrow> (s # rest, k')))"

section \<open>The outreach step store\<close>

text \<open>
  The process owns one SQLite connection. Its state is the content of the table as the
  connection sees it, the image to restore on \<^verbatim>\<open>ROLLBACK\<close> while a transaction is open,
  and the statements other than \<^verbatim>\<open>SELECT\<close> executed so far, each with its error if it
  failed. The number of \<^verbatim>\<open>uuidv4()\<close> calls made so far is kept beside it. The table has
  no writer but the two operations of this section (foreign keys are not enforced, so
  deleting a deal leaves its steps). Requests are served one after the other. Faults of the
  engine that do not depend on the data (I/O, a full disk) are not modelled.
\<close>

record insert_values =
  val_id :: string
  val_dealId :: "string option"
  val_dueDate :: "jsdate option"
  val_channel :: "string option"
  val_intent :: "string option"
  val_goal :: jsval
  val_status :: string
  val_completedAt :: "nat option"

datatype statement =
    BEGIN_TRANSACTION
  | INSERT insert_values
  | ROLLBACK
  | COMMIT
  | UPDATE_STATUS "string option" "nat option" string

record world =
  outreach_steps :: "outreach_step list"
  rollback_image :: "outreach_step list option"
  executed :: "(statement \<times> db_error option) list"
  uuid_calls :: nat

text \<open>
  \<^verbatim>\<open>INSERT\<close>: \<^verbatim>\<open>id\<close> is the primary key; \<^verbatim>\<open>dealId\<close>, \<^verbatim>\<open>dueDate\<close>, \<^verbatim>\<open>channel\<close>,
  \<^verbatim>\<open>intent\<close> and \<^verbatim>\<open>status\<close> are \<^verbatim>\<open>NOT NULL\<close>; \<^verbatim>\<open>createdAt\<close> defaults to the time
  of the insert. A violated constraint fails the statement alone: the table is as before it
  and an open transaction stays open.
\<close>

definition insert_row :: "nat \<Rightarrow> insert_values \<Rightarrow> outreach_step list \<Rightarrow> outreach_step list option" where
  "insert_row t v rows =
     (case (val_dealId v, val_dueDate v, val_channel v, val_intent v) of
        (Some d, Some due, Some ch, Some i) \<Rightarrow>
          if val_id v \<in> set (map row_id rows) then None
          else Some (rows @ [\<lparr>row_id = val_id v, row_dealId = d, row_dueDate = due,
                              row_channel = ch, row_intent = i, row_goal = val_goal v,
                              row_status = val_status v, row_createdAt = t,
                              row_completedAt = val_completedAt v\<rparr>])
      | _ \<Rightarrow> None)"

definition logged :: "statement \<Rightarrow> db_error option \<Rightarrow> world \<Rightarrow> db_error option \<times> world" where
  "logged st err w = (err, w\<lparr>executed := executed w @ [(st, err)]\<rparr>)"

fun run_statement :: "nat \<Rightarrow> statement \<Rightarrow> world \<Rightarrow> db_error option \<times> world" where
  "run_statement t BEGIN_TRANSACTION w =
     (case rollback_image w of
        None \<Rightarrow> logged BEGIN_TRANSACTION None (w\<lparr>rollback_image := Some (outreach_steps w)\<rparr>)
      | Some _ \<Rightarrow> logged BEGIN_TRANSACTION (Some SQLITE_ERROR) w)"
| "run_statement t (INSERT v) w =
     (case insert_row t v (outreach_steps w) of
        Some rows \<Rightarrow> logged (INSERT v) None (w\<lparr>outreach_steps := rows\<rparr>)
      | None \<Rightarrow> logged (INSERT v) (Some SQLITE_CONSTRAINT) w)"
| "run_statement t ROLLBACK w =
     (case rollback_image w of
        Some rows \<Rightarrow> logged ROLLBACK None (w\<lparr>outreach_steps := rows, rollback_image := None\<rparr>)
      | None \<Rightarrow> logged ROLLBACK (Some SQLITE_ERROR) w)"
| "run_statement t COMMIT w =
     (case rollback_image w of
        Some _ \<Rightarrow> logged COMMIT None (w\<lparr>rollback_image := None\<rparr>)
      | None \<Rightarrow> logged COMMIT (Some SQLITE_ERROR) w)"
| "run_statement t (UPDATE_STATUS status completedAt stepId) w =
     (case status of
        None \<Rightarrow>
          if stepId \<in> set (map row_id (outreach_steps w))
          then logged (UPDATE_STATUS status completedAt stepId) (Some SQLITE_CONSTRAINT) w
          else logged (UPDATE_STATUS status completedAt stepId) None w
      | Some st \<Rightarrow>
          logged (UPDATE_STATUS status completedAt stepId) None
            (w\<lparr>outreach_steps :=
                  map (\<lambda>r. if row_id r = stepId
                           then r\<lparr>row_status := st, row_completedAt := completedAt\<rparr> else r)
                      (outreach_steps w)\<rparr>))"

text \<open>
  \<^verbatim>\<open>this.changes\<close> after the \<^verbatim>\<open>UPDATE\<close>: the number of rows with that id.
\<close>

definition changes :: "string \<Rightarrow> world \<Rightarrow> nat" where
  "changes stepId w = length (filter (\<lambda>r. row_id r = stepId) (outreach_steps w))"

text \<open>
  The sqlite3 driver keeps the statements of a \<^verbatim>\<open>db.serialize\<close> block in a queue and runs
  them one at a time. The callback of a statement runs when the statement has finished and
  before the next one of the queue starts; a statement that the callback issues with
  \<^verbatim>\<open>db.run\<close> joins the queue at its end, behind the statements already waiting. Each
  queued statement carries the callback the source gave it; the variables that the callbacks
  of \<^verbatim>\<open>createOutreachSteps\<close> share are \<^verbatim>\<open>hasErrored\<close> and \<^verbatim>\<open>remaining\<close>, and
  \<open>callback_calls\<close> lists the argument of each call of \<^verbatim>\<open>callback\<close>, in order.
\<close>

datatype continuation = NoCallback | InsertCallback | RollbackCallback db_error | CommitCallback

record batch =
  hasErrored :: bool
  remaining :: int
  callback_calls :: "db_error option list"

fun weight :: "statement \<times> continuation \<Rightarrow> nat" where
  "weight (st, InsertCallback) = 2"
| "weight (st, _) = 1"

function run_queue ::
  "nat \<Rightarrow> (statement \<times> continuation) list \<Rightarrow> batch \<Rightarrow> world \<Rightarrow> batch \<times> world" where
  "run_queue t [] b w = (b, w)"
| "run_queue t ((st, NoCallback) # q) b w = run_queue t q b (snd (run_statement t st w))"
| "run_queue t ((st, InsertCallback) # q) b w =
     (case run_statement t st w of
        (Some err, w') \<Rightarrow>
          run_queue t (q @ [(ROLLBACK, RollbackCallback err)]) (b\<lparr>hasErrored := True\<rparr>) w'
      | (None, w') \<Rightarrow>
          (if remaining b - 1 = 0 \<and> \<not> hasErrored b
           then run_queue t (q @ [(COMMIT, CommitCallback)]) (b\<lparr>remaining := remaining b - 1\<rparr>) w'
           else run_queue t q (b\<lparr>remaining := remaining b - 1\<rparr>) w'))"
| "run_queue t ((st, RollbackCallback err) # q) b w =
     run_queue t q (b\<lparr>callback_calls := callback_calls b @ [Some err]\<rparr>)
       (snd (run_statement t st w))"
| "run_queue t ((st, CommitCallback) # q) b w =
     (case run_statement t st w of
        (commitErr, w') \<Rightarrow> run_queue t q (b\<lparr>callback_calls := callback_calls b @ [commitErr]\<rparr>) w')"
  by pat_completeness auto
termination
  by (relation "measure (\<lambda>(t, q, b, w). sum_list (map weight q))") auto

text \<open>
  \<^verbatim>\<open>a || b\<close> on a text that may be absent: the empty text is falsy too.
\<close>

fun text_or :: "string option \<Rightarrow> string \<Rightarrow> string" where
  "text_or None d = d"
| "text_or (Some s) d = (if s = [] then d else s)"

text \<open>
  The values that the \<^verbatim>\<open>forEach\<close> of \<^verbatim>\<open>createOutreachSteps\<close> binds for one step;
  \<^verbatim>\<open>step.id || uuidv4()\<close> calls \<^verbatim>\<open>uuidv4\<close> only for a step without an id.
\<close>

definition lacks_id :: "step \<Rightarrow> bool" where
  "lacks_id s = (text_or (step_id s) [] = [])"

definition bound_values :: "runtime \<Rightarrow> step \<Rightarrow> nat \<Rightarrow> insert_values" where
  "bound_values rt s k =
     (let statusValue = text_or (step_status s) ''pending'';
          completedAt = (if statusValue = ''pending'' then None else Some (now rt));
          id = (if lacks_id s then uuidv4 rt k else text_or (step_id s) [])
      in \<lparr>val_id = id,
          val_dealId = step_dealId s,
          val_dueDate = step_dueDate s,
          val_channel = step_channel s,
          val_intent = step_intent s,
          val_goal = js_or (step_goal s) JNull,
          val_status = statusValue,
          val_completedAt = completedAt\<rparr>)"

text \<open>
  The \<^verbatim>\<open>forEach\<close> runs to its end before any callback does, so it reads
  \<^verbatim>\<open>hasErrored\<close> as it was set before the loop.
\<close>

fun queue_inserts ::
  "runtime \<Rightarrow> batch \<Rightarrow> step list \<Rightarrow> nat \<Rightarrow> (statement \<times> continuation) list \<times> nat" where
  "queue_inserts rt b [] k = ([], k)"
| "queue_inserts rt b (s # ss) k =
     (if hasErrored b then queue_inserts rt b ss k
      else
        (case queue_inserts rt b ss (if lacks_id s then Suc k else k) of
           (rest, k') \<Rightarrow> ((INSERT (bound_values rt s k), InsertCallback) # rest, k')))"

datatype steps_arg = NotAnArray | Array "step list"

definition createOutreachSteps ::
  "runtime \<Rightarrow> steps_arg \<Rightarrow> world \<Rightarrow> db_error option list \<times> world" where
  "createOutreachSteps rt steps w =
     (case steps of
        NotAnArray \<Rightarrow> ([None], w)
      | Array ss \<Rightarrow>
          if length ss = 0 then ([None], w)
          else
            let b0 = \<lparr>hasErrored = False, remaining = int (length ss), callback_calls = []\<rparr>;
                (inserts, k) = queue_inserts rt b0 ss (uuid_calls w);
                (b, w') = run_queue (now rt) ((BEGIN_TRANSACTION, NoCallback) # inserts) b0
                            (w\<lparr>uuid_calls := k\<rparr>)
            in (callback_calls b, w'))"

text \<open>
  \<^verbatim>\<open>updateOutreachStepStatus\<close> calls back with an error, or with \<^verbatim>\<open>{notFound: b}\<close>
  (here \<open>Inr b\<close>).
\<close>

definition updateOutreachStepStatus ::
  "runtime \<Rightarrow> string \<Rightarrow> string option \<Rightarrow> world \<Rightarrow> (db_error + bool) \<times> world" where
  "updateOutreachStepStatus rt stepId status w =
     (let completedAt = (if status = Some ''pending'' then None else Some (now rt))
      in case run_statement (now rt) (UPDATE_STATUS status completedAt stepId) w of
           (Some err, w') \<Rightarrow> (Inl err, w')
         | (None, w') \<Rightarrow> (Inr (changes stepId w = 0), w'))"

text \<open>
  \<^verbatim>\<open>getOutreachStepsForDeal\<close>. The order of rows with equal keys is the engine's choice;
  here they keep the order of the table.
\<close>

definition getOutreachStepsForDeal :: "string \<Rightarrow> world \<Rightarrow> outreach_step list" where
  "getOutreachStepsForDeal dealId w =
     sort_key (\<lambda>r. (datetime (row_dueDate r), row_createdAt r))
       (filter (\<lambda>r. row_dealId r = dealId) (outreach_steps w))"

section \<open>The plan orchestrator\<close>

text \<open>
  \<^verbatim>\<open>buildAndStoreSteps\<close> returns a promise: rejected with what the code throws or with
  the error of the store, or resolved with \<^verbatim>\<open>null\<close> (\<open>None\<close>) when no candidate is
  accepted and otherwise with the rows that \<^verbatim>\<open>getOutreachStepsForDeal\<close> reads back. The
  first call of the store's callback settles the promise.
\<close>

definition buildAndStoreSteps ::
  "runtime \<Rightarrow> jsval \<Rightarrow> bool \<Rightarrow> string \<Rightarrow> int \<Rightarrow> steps_value \<Rightarrow> world
     \<Rightarrow> (js_error + outreach_step list option) \<times> world" where
  "buildAndStoreSteps rt stage hasAnyContact dealId parsedHorizon modelSteps w =
     (case (case modelSteps of
              StepsAbsent \<Rightarrow> Inr []
            | StepsArray es \<Rightarrow> normalizedSteps rt stage hasAnyContact es
            | StepsOther \<Rightarrow> Inl TypeError) of
        Inl e \<Rightarrow> (Inl e, w)
      | Inr normalized \<Rightarrow>
          let (steps, k) = stepsToInsert rt dealId parsedHorizon normalized (uuid_calls w)
          in if length steps = 0 then (Inr None, w\<lparr>uuid_calls := k\<rparr>)
             else
               (case createOutreachSteps rt (Array steps) (w\<lparr>uuid_calls := k\<rparr>) of
                  ([], w') \<Rightarrow> (Inl NeverSettled, w')
                | (Some createErr # _, w') \<Rightarrow> (Inl (Rejected createErr), w')
                | (None # _, w') \<Rightarrow> (Inr (Some (getOutreachStepsForDeal dealId w')), w')))"

definition stub :: "element list" where
  "stub =
     [EObj \<lparr>offsetDays = JNum 0, channel = JStr ''email'', intent = JStr ''first_contact'',
            goal = JStr ''Send a concise intro email with value props and propose a short call.''\<rparr>,
      EObj \<lparr>offsetDays = JNum 3, channel = JStr ''whatsapp'', intent = JStr ''nurture_checkin'',
            goal = JStr ''Lightly check in to see if they had a chance to review.''\<rparr>,
      EObj \<lparr>offsetDays = JNum 7, channel = JStr ''call_script'', intent = JStr ''post_call_summary'',
            goal = JStr ''Call to recap fit, address questions, and agree next steps.''\<rparr>]"

definition handleStubResponse ::
  "runtime \<Rightarrow> jsval \<Rightarrow> bool \<Rightarrow> string \<Rightarrow> int \<Rightarrow> world
     \<Rightarrow> (js_error + outreach_step list option) \<times> world" where
  "handleStubResponse rt stage hasAnyContact dealId parsedHorizon w =
     buildAndStoreSteps rt stage hasAnyContact dealId parsedHorizon (StepsArray stub) w"

text \<open>
  What the route \<^verbatim>\<open>POST /ai/outreach-plan\<close> reads: the body (\<open>req_dealId\<close> is empty when
  the property is absent), the row of the deal with the date of its last activity, the number
  of recent activities fetched (none when that query fails), whether \<^verbatim>\<open>OPENAI_API_KEY\<close>
  is set, and what the completion call does: it throws, or its content parses to an object
  whose \<^verbatim>\<open>steps\<close> is the given value (\<open>StepsAbsent\<close> also when the content is not JSON).
\<close>

datatype deal_lookup = LookupFailed | NoSuchDeal | DealContext jsval jsval

datatype completion = CompletionThrows | CompletionSteps steps_value

record plan_request =
  req_dealId :: string
  req_horizonDays :: jsval
  deal :: deal_lookup
  recentActivities :: nat
  OPENAI_API_KEY :: bool
  completion :: completion

datatype response =
    OkSteps string "outreach_step list"
  | OkStatus jsval
  | ErrorResponse nat string

text \<open>\<^verbatim>\<open>Number.isInteger(horizonDays) && horizonDays > 0 ? horizonDays : 14\<close>\<close>

fun parsedHorizon :: "jsval \<Rightarrow> int" where
  "parsedHorizon (JNum n) = (if n = of_int \<lfloor>n\<rfloor> \<and> n > 0 then \<lfloor>n\<rfloor> else 14)"
| "parsedHorizon _ = 14"

text \<open>\<^verbatim>\<open>rows || []\<close>\<close>

fun rows_or_empty :: "outreach_step list option \<Rightarrow> outreach_step list" where
  "rows_or_empty None = []"
| "rows_or_empty (Some rows) = rows"

text \<open>
  The two places that answer with the stub: the branch without a key and the
  \<^verbatim>\<open>catch\<close> of the branch with one.
\<close>

definition respond_with_stub ::
  "runtime \<Rightarrow> jsval \<Rightarrow> bool \<Rightarrow> string \<Rightarrow> int \<Rightarrow> world \<Rightarrow> response \<times> world" where
  "respond_with_stub rt stage hasAnyContact dealId horizon w =
     (case handleStubResponse rt stage hasAnyContact dealId horizon w of
        (Inr rows, w') \<Rightarrow> (OkSteps dealId (rows_or_empty rows), w')
      | (Inl storeErr, w') \<Rightarrow> (ErrorResponse 500 ''Failed to generate outreach plan'', w'))"

definition outreach_plan :: "runtime \<Rightarrow> plan_request \<Rightarrow> world \<Rightarrow> response \<times> world" where
  "outreach_plan rt req w =
     (if req_dealId req = [] then (ErrorResponse 400 ''dealId is required'', w)
      else
        case deal req of
          LookupFailed \<Rightarrow> (ErrorResponse 500 ''Failed to generate outreach plan'', w)
        | NoSuchDeal \<Rightarrow> (ErrorResponse 404 ''Deal not found'', w)
        | DealContext rowStage lastActivityDate \<Rightarrow>
            let dealId = req_dealId req;
                horizon = parsedHorizon (req_horizonDays req);
                stage = js_or rowStage JNull;
                hasAnyContact = (truthy lastActivityDate \<or> recentActivities req > 0)
            in
              if \<not> OPENAI_API_KEY req
              then respond_with_stub rt stage hasAnyContact dealId horizon w
              else
                (case completion req of
                   CompletionThrows \<Rightarrow> respond_with_stub rt stage hasAnyContact dealId horizon w
                 | CompletionSteps steps \<Rightarrow>
                     (case buildAndStoreSteps rt stage hasAnyContact dealId horizon steps w of
                        (Inl aiErr, w1) \<Rightarrow>
                          respond_with_stub rt stage hasAnyContact dealId horizon w1
                      | (Inr (Some created), w1) \<Rightarrow> (OkSteps dealId created, w1)
                      | (Inr None, w1) \<Rightarrow>
                          (case handleStubResponse rt stage hasAnyContact dealId horizon w1 of
                             (Inr fallback, w2) \<Rightarrow> (OkSteps dealId (rows_or_empty fallback), w2)
                           | (Inl aiErr, w2) \<Rightarrow>
                               respond_with_stub rt stage hasAnyContact dealId horizon w2))))"

text \<open>The route \<^verbatim>\<open>PATCH /outreach-steps/:stepId/status\<close>.\<close>

definition allowedStatuses :: "string list" where
  "allowedStatuses = [''pending'', ''done'', ''skipped'']"

definition patch_status :: "runtime \<Rightarrow> string \<Rightarrow> jsval \<Rightarrow> world \<Rightarrow> response \<times> world" where
  "patch_status rt stepId status w =
     (if stepId = [] \<or> \<not> js_includes allowedStatuses status
      then (ErrorResponse 400 ''Invalid status'', w)
      else
        case updateOutreachStepStatus rt stepId (text_of status) w of
          (Inl err, w') \<Rightarrow> (ErrorResponse 500 ''Failed to update outreach step status'', w')
        | (Inr notFound, w') \<Rightarrow>
            if notFound then (ErrorResponse 404 ''Outreach step not found'', w')
            else (OkStatus status, w'))"

section \<open>Sample inputs\<close>

text \<open>Concrete inputs on which the theorems below are exercised.\<close>

definition sample_numText :: "rat \<Rightarrow> string" where
  "sample_numText n = ''0''"

definition sample_uuidv4 :: "nat \<Rightarrow> string" where
  "sample_uuidv4 k = replicate (Suc k) CHR ''u''"

definition sample_runtime :: runtime where
  "sample_runtime =
     \<lparr>numText = sample_numText, uuidv4 = sample_uuidv4,
      today = \<lparr>day = 20000, hours = 17, minutes = 45, seconds = 12, milliseconds = 7\<rparr>,
      now = 1000\<rparr>"

definition sample_candidates :: "candidate list" where
  "sample_candidates =
     [\<lparr>offsetDays = JNum 0, channel = JStr ''email'', intent = JStr ''first_contact'', goal = JUndefined\<rparr>,
      \<lparr>offsetDays = JNum (-1), channel = JStr ''email'', intent = JStr ''nurture_checkin'', goal = JNull\<rparr>,
      \<lparr>offsetDays = JNum 14, channel = JStr ''sms'', intent = JStr ''cold_call'', goal = JStr ''Ask''\<rparr>,
      \<lparr>offsetDays = JNum 15, channel = JStr ''sms'', intent = JStr ''nurture_checkin'', goal = JNull\<rparr>,
      \<lparr>offsetDays = JStr ''3'', channel = JStr ''sms'', intent = JStr ''nurture_checkin'', goal = JNull\<rparr>,
      \<lparr>offsetDays = JNum 2, channel = JStr ''fax'', intent = JStr ''nurture_checkin'', goal = JNull\<rparr>]"


definition sample_empty :: world where
  "sample_empty = \<lparr>outreach_steps = [], rollback_image = None, executed = [], uuid_calls = 0\<rparr>"

definition sample_world :: world where
  "sample_world =
     \<lparr>outreach_steps =
        [\<lparr>row_id = ''old'', row_dealId = ''d1'',
          row_dueDate = \<lparr>day = 19990, hours = 9, minutes = 0, seconds = 0, milliseconds = 0\<rparr>,
          row_channel = ''email'', row_intent = ''first_contact'', row_goal = JNull,
          row_status = ''done'', row_createdAt = 900, row_completedAt = Some 950\<rparr>],
      rollback_image = None, executed = [], uuid_calls = 0\<rparr>"

definition sample_step :: "string option \<Rightarrow> string option \<Rightarrow> step" where
  "sample_step ident status =
     \<lparr>step_id = ident, step_dealId = Some ''d1'',
      step_dueDate = Some \<lparr>day = 20001, hours = 9, minutes = 0, seconds = 0, milliseconds = 0\<rparr>,
      step_channel = Some ''sms'', step_intent = Some ''nurture_checkin'', step_goal = JUndefined,
      step_status = status\<rparr>"

definition sample_batch :: "step list" where
  "sample_batch =
     [sample_step (Some ''a'') None, sample_step None (Some ''done''),
      sample_step (Some ''old'') (Some ''pending'')]"

definition sample_request :: plan_request where
  "sample_request =
     \<lparr>req_dealId = ''d1'', req_horizonDays = JNum 14, deal = DealContext (JStr ''New'') JNull,
      recentActivities = 0, OPENAI_API_KEY = False, completion = CompletionThrows\<rparr>"

definition sample_request_with_key :: plan_request where
  "sample_request_with_key =
     sample_request
       \<lparr>OPENAI_API_KEY := True,
        completion := CompletionSteps (StepsArray [EObj (sample_candidates ! 1), ENull])\<rparr>"

section \<open>Notions of the specification\<close>



text \<open>
  The invariant of a stored step: its status is \<open>pending\<close> exactly when \<open>completedAt\<close>
  is null. The states of the store that matter are those reached from the empty table by
  the two operations that write to it (and by calls of \<^verbatim>\<open>uuidv4\<close> elsewhere).
\<close>

definition step_invariant :: "outreach_step \<Rightarrow> bool" where
  "step_invariant r = ((row_status r = ''pending'') = (row_completedAt r = None))"

inductive reachable :: "world \<Rightarrow> bool" where
  initial: "reachable \<lparr>outreach_steps = [], rollback_image = None, executed = [], uuid_calls = k\<rparr>"
| insertBatch: "reachable w \<Longrightarrow> reachable (snd (createOutreachSteps rt steps w))"
| setStatus: "reachable w \<Longrightarrow> reachable (snd (updateOutreachStepStatus rt stepId status w))"
| uuid: "reachable w \<Longrightarrow> reachable (w\<lparr>uuid_calls := k\<rparr>)"

text \<open>
  What one call of the store did: the statements it executed, and among them the inserts
  that failed.
\<close>

definition executed_since :: "world \<Rightarrow> world \<Rightarrow> (statement \<times> db_error option) list" where
  "executed_since w w' = drop (length (executed w)) (executed w')"

fun failed_insert :: "statement \<times> db_error option \<Rightarrow> bool" where
  "failed_insert (INSERT v, Some e) = True"
| "failed_insert _ = False"


definition persisted_since :: "world \<Rightarrow> world \<Rightarrow> outreach_step list" where
  "persisted_since w w' = drop (length (outreach_steps w)) (outreach_steps w')"


definition fallback_row ::
  "runtime \<Rightarrow> string \<Rightarrow> nat \<Rightarrow> int \<Rightarrow> string \<Rightarrow> string \<Rightarrow> string \<Rightarrow> outreach_step" where
  "fallback_row rt dealId k offset ch i g =
     \<lparr>row_id = uuidv4 rt k, row_dealId = dealId,
      row_dueDate = \<lparr>day = day (today rt) + offset, hours = 9, minutes = 0, seconds = 0,
                      milliseconds = 0\<rparr>,
      row_channel = ch, row_intent = i, row_goal = JStr g, row_status = ''pending'',
      row_createdAt = now rt, row_completedAt = None\<rparr>"

definition fallback_rows :: "runtime \<Rightarrow> string \<Rightarrow> nat \<Rightarrow> outreach_step list" where
  "fallback_rows rt dealId k =
     [fallback_row rt dealId k 0 ''email'' ''first_contact''
        ''Send a concise intro email with value props and propose a short call.'',
      fallback_row rt dealId (k + 1) 3 ''whatsapp'' ''nurture_checkin''
        ''Lightly check in to see if they had a chance to review.'',
      fallback_row rt dealId (k + 2) 7 ''call_script'' ''post_call_summary''
        ''Call to recap fit, address questions, and agree next steps.'']"

text \<open>
  The ids that \<^verbatim>\<open>uuidv4()\<close> gives next are new: the next three are not empty, differ from
  each other and are not ids of stored steps.
\<close>

definition next_ids_fresh :: "runtime \<Rightarrow> world \<Rightarrow> bool" where
  "next_ids_fresh rt w =
     (distinct [uuidv4 rt (uuid_calls w), uuidv4 rt (uuid_calls w + 1), uuidv4 rt (uuid_calls w + 2)]
      \<and> [] \<notin> {uuidv4 rt (uuid_calls w), uuidv4 rt (uuid_calls w + 1), uuidv4 rt (uuid_calls w + 2)}
      \<and> {uuidv4 rt (uuid_calls w), uuidv4 rt (uuid_calls w + 1), uuidv4 rt (uuid_calls w + 2)}
          \<inter> set (map row_id (outreach_steps w)) = {})"

section \<open>Auxiliary notions for the proofs\<close>

text \<open>
  The inserts of one batch replayed in order on a table, with the outcome of each; the
  values that \<^verbatim>\<open>createOutreachSteps\<close> binds for a whole batch; the statements that keep
  the invariant.
\<close>

fun replay ::
  "nat \<Rightarrow> insert_values list \<Rightarrow> outreach_step list \<Rightarrow> outreach_step list \<times> db_error option list" where
  "replay t [] rows = (rows, [])"
| "replay t (v # vs) rows =
     (case insert_row t v rows of
        Some rows' \<Rightarrow> (case replay t vs rows' of (r, outcomes) \<Rightarrow> (r, None # outcomes))
      | None \<Rightarrow> (case replay t vs rows of (r, outcomes) \<Rightarrow> (r, Some SQLITE_CONSTRAINT # outcomes)))"

fun errors_of :: "db_error option list \<Rightarrow> db_error list" where
  "errors_of [] = []"
| "errors_of (None # outcomes) = errors_of outcomes"
| "errors_of (Some e # outcomes) = e # errors_of outcomes"

fun batch_values :: "runtime \<Rightarrow> step list \<Rightarrow> nat \<Rightarrow> insert_values list" where
  "batch_values rt [] k = []"
| "batch_values rt (s # ss) k =
     bound_values rt s k # batch_values rt ss (if lacks_id s then Suc k else k)"

definition insert_entry :: "insert_values \<Rightarrow> statement \<times> continuation" where
  "insert_entry v = (INSERT v, InsertCallback)"

definition rollback_entry :: "db_error \<Rightarrow> statement \<times> continuation" where
  "rollback_entry e = (ROLLBACK, RollbackCallback e)"

definition rollbacks :: "nat \<Rightarrow> (statement \<times> db_error option) list" where
  "rollbacks n = (ROLLBACK, None) # replicate (n - 1) (ROLLBACK, Some SQLITE_ERROR)"

definition outcome ::
  "nat \<Rightarrow> (statement \<times> continuation) list \<Rightarrow> batch \<Rightarrow> world \<Rightarrow> db_error option list \<times> world" where
  "outcome t q b w = (callback_calls (fst (run_queue t q b w)), snd (run_queue t q b w))"



definition normalized_of :: "runtime \<Rightarrow> jsval \<Rightarrow> bool \<Rightarrow> steps_value \<Rightarrow> js_error + candidate list" where
  "normalized_of rt stage hasAnyContact modelSteps =
     (case modelSteps of
        StepsAbsent \<Rightarrow> Inr []
      | StepsArray es \<Rightarrow> normalizedSteps rt stage hasAnyContact es
      | StepsOther \<Rightarrow> Inl TypeError)"

definition settle ::
  "string \<Rightarrow> db_error option list \<times> world \<Rightarrow> (js_error + outreach_step list option) \<times> world" where
  "settle dealId R =
     (case R of
        ([], w') \<Rightarrow> (Inl NeverSettled, w')
      | (Some createErr # _, w') \<Rightarrow> (Inl (Rejected createErr), w')
      | (None # _, w') \<Rightarrow> (Inr (Some (getOutreachStepsForDeal dealId w')), w'))"

definition stub_step ::
  "runtime \<Rightarrow> string \<Rightarrow> nat \<Rightarrow> int \<Rightarrow> string \<Rightarrow> string \<Rightarrow> string \<Rightarrow> step" where
  "stub_step rt dealId k offset ch i g =
     \<lparr>step_id = Some (uuidv4 rt k), step_dealId = Some dealId,
      step_dueDate = Some \<lparr>day = day (today rt) + offset, hours = 9, minutes = 0, seconds = 0,
                            milliseconds = 0\<rparr>,
      step_channel = Some ch, step_intent = Some i, step_goal = JStr g,
      step_status = Some ''pending''\<rparr>"

definition values_invariant :: "insert_values \<Rightarrow> bool" where
  "values_invariant v = ((val_status v = ''pending'') = (val_completedAt v = None))"

fun keeps_invariant :: "statement \<Rightarrow> bool" where
  "keeps_invariant (INSERT v) = values_invariant v"
| "keeps_invariant (UPDATE_STATUS status completedAt stepId) =
     ((status = Some ''pending'') = (completedAt = None))"
| "keeps_invariant _ = True"

definition world_invariant :: "world \<Rightarrow> bool" where
  "world_invariant w =
     (list_all step_invariant (outreach_steps w)
      \<and> (case rollback_image w of None \<Rightarrow> True | Some rows \<Rightarrow> list_all step_invariant rows))"

section \<open>The intent normalizer: properties\<close>

lemma toLowerCase_Nil [simp]: "toLowerCase [] = []"
  by (simp add: toLowerCase_def)

lemma toLowerCase_allowed: "s \<in> set allowedIntents \<Longrightarrow> toLowerCase s = s"
  by (auto simp: allowedIntents_def toLowerCase_def lower_char_def)

lemma first_contact_allowed: "''first_contact'' \<in> set allowedIntents"
  by (simp add: allowedIntents_def)

lemma normalize_in_enumeration:
  "normalizeIntentForStage nt stage originalIntent hasAnyContact \<in> set allowedIntents"
  by (simp add: normalizeIntentForStage_def Let_def) (simp add: allowedIntents_def)

text \<open>
  C4. With the requested intent \<open>first_contact\<close> the result follows the stage, compared in
  lower case: \<open>new\<close> keeps \<open>first_contact\<close>, \<open>qualified\<close> gives \<open>nurture_checkin\<close>,
  \<open>proposal sent\<close> or \<open>proposal_sent\<close> gives \<open>proposal_followup\<close>, \<open>won\<close> gives
  \<open>post_call_summary\<close>, \<open>lost\<close> gives \<open>deal_recovery\<close>, and any other stage gives
  \<open>nurture_checkin\<close> when there was a contact before. A requested intent that is absent
  (falsy) gives \<open>nurture_checkin\<close> whatever the stage.
\<close>

theorem normalize_first_contact_follows_stage:
  "(toLowerCase stage = ''new'' \<longrightarrow>
      normalizeIntentForStage nt (JStr stage) (JStr ''first_contact'') hasAnyContact = ''first_contact'')
   \<and> (toLowerCase stage = ''qualified'' \<longrightarrow>
      normalizeIntentForStage nt (JStr stage) (JStr ''first_contact'') hasAnyContact = ''nurture_checkin'')
   \<and> (toLowerCase stage = ''proposal sent'' \<or> toLowerCase stage = ''proposal_sent'' \<longrightarrow>
      normalizeIntentForStage nt (JStr stage) (JStr ''first_contact'') hasAnyContact = ''proposal_followup'')
   \<and> (toLowerCase stage = ''won'' \<longrightarrow>
      normalizeIntentForStage nt (JStr stage) (JStr ''first_contact'') hasAnyContact = ''post_call_summary'')
   \<and> (toLowerCase stage = ''lost'' \<longrightarrow>
      normalizeIntentForStage nt (JStr stage) (JStr ''first_contact'') hasAnyContact = ''deal_recovery'')
   \<and> (toLowerCase stage \<notin> {''new'', ''qualified'', ''proposal sent'', ''proposal_sent'', ''won'', ''lost''}
        \<and> hasAnyContact \<longrightarrow>
      normalizeIntentForStage nt (JStr stage) (JStr ''first_contact'') hasAnyContact = ''nurture_checkin'')
   \<and> (\<not> truthy absent \<longrightarrow>
      normalizeIntentForStage nt anyStage absent hasAnyContact = ''nurture_checkin'')"
proof -
  have fc: "toLowerCase ''first_contact'' = ''first_contact''"
    by (rule toLowerCase_allowed [OF first_contact_allowed])
  have stageLower: "(if truthy (JStr stage) then toLowerCase (js_String nt (JStr stage)) else []) = toLowerCase stage"
    by simp
  show ?thesis
    unfolding normalizeIntentForStage_def Let_def stageLower
    by (simp add: fc)
qed

theorem normalize_first_contact_follows_stage_witness:
  "toLowerCase ''Proposal Sent'' = ''proposal sent''
   \<and> normalizeIntentForStage sample_numText (JStr ''Proposal Sent'') (JStr ''first_contact'') False
       = ''proposal_followup''
   \<and> toLowerCase ''LOST'' = ''lost''
   \<and> normalizeIntentForStage sample_numText (JStr ''LOST'') (JStr ''first_contact'') True
       = ''deal_recovery''
   \<and> toLowerCase ''Negotiation'' = ''negotiation''
   \<and> normalizeIntentForStage sample_numText (JStr ''Negotiation'') (JStr ''first_contact'') True
       = ''nurture_checkin''
   \<and> \<not> truthy JUndefined
   \<and> normalizeIntentForStage sample_numText (JStr ''New'') JUndefined False = ''nurture_checkin''"
proof -
  have a: "toLowerCase ''Proposal Sent'' = ''proposal sent''"
    and b: "toLowerCase ''LOST'' = ''lost''"
    and c: "toLowerCase ''Negotiation'' = ''negotiation''"
    by (simp_all add: toLowerCase_def lower_char_def)
  show ?thesis
    using normalize_first_contact_follows_stage
            [of "''Proposal Sent''" sample_numText False JUndefined "JStr ''New''"]
          normalize_first_contact_follows_stage
            [of "''LOST''" sample_numText True JUndefined "JStr ''New''"]
          normalize_first_contact_follows_stage
            [of "''Negotiation''" sample_numText True JUndefined "JStr ''New''"]
    by (simp add: a b c)
qed

text \<open>
  C5, as stated: a requested intent that is not in the enumeration would give
  \<open>nurture_checkin\<close>. \<open>Deal_Recovery\<close> is not in the enumeration, and the result is
  \<open>deal_recovery\<close>.
\<close>

theorem normalize_passthrough_counterexample:
  "JStr ''Deal_Recovery'' \<noteq> JStr ''first_contact''
   \<and> ''Deal_Recovery'' \<notin> set allowedIntents
   \<and> normalizeIntentForStage sample_numText (JStr ''new'') (JStr ''Deal_Recovery'') False
       = ''deal_recovery''
   \<and> ''deal_recovery'' \<noteq> ''nurture_checkin''"
  by (simp add: normalizeIntentForStage_def toLowerCase_def lower_char_def allowedIntents_def)

text \<open>
  C5, amended. The result is always in the enumeration of ten intents. A requested intent
  whose text in lower case is not \<open>first_contact\<close> gives that lower-case text if it is in
  the enumeration, and \<open>nurture_checkin\<close> otherwise (as an absent one does); so an intent
  of the enumeration other than \<open>first_contact\<close> passes through unchanged.
\<close>

theorem normalize_result_in_enumeration:
  "normalizeIntentForStage nt stage originalIntent hasAnyContact \<in> set allowedIntents
   \<and> length allowedIntents = 10
   \<and> (\<not> truthy originalIntent \<longrightarrow>
        normalizeIntentForStage nt stage originalIntent hasAnyContact = ''nurture_checkin'')
   \<and> (truthy originalIntent \<and> toLowerCase (js_String nt originalIntent) \<noteq> ''first_contact'' \<longrightarrow>
        normalizeIntentForStage nt stage originalIntent hasAnyContact
          = (if toLowerCase (js_String nt originalIntent) \<in> set allowedIntents
             then toLowerCase (js_String nt originalIntent) else ''nurture_checkin''))
   \<and> (toLowerCase requested \<noteq> ''first_contact'' \<longrightarrow>
        normalizeIntentForStage nt stage (JStr requested) hasAnyContact
          = (if toLowerCase requested \<in> set allowedIntents then toLowerCase requested
             else ''nurture_checkin''))
   \<and> (requested \<in> set allowedIntents \<and> requested \<noteq> ''first_contact'' \<longrightarrow>
        normalizeIntentForStage nt stage (JStr requested) hasAnyContact = requested)"
proof -
  have ten: "length allowedIntents = 10"
    by (simp add: allowedIntents_def)
  have empty: "[] \<notin> set allowedIntents"
    by (simp add: allowedIntents_def)
  have absent: "\<not> truthy originalIntent \<Longrightarrow>
      normalizeIntentForStage nt stage originalIntent hasAnyContact = ''nurture_checkin''"
    by (simp add: normalizeIntentForStage_def)
  have present: "truthy originalIntent \<and> toLowerCase (js_String nt originalIntent) \<noteq> ''first_contact'' \<Longrightarrow>
      normalizeIntentForStage nt stage originalIntent hasAnyContact
        = (if toLowerCase (js_String nt originalIntent) \<in> set allowedIntents
           then toLowerCase (js_String nt originalIntent) else ''nurture_checkin'')"
    by (simp add: normalizeIntentForStage_def Let_def)
  have lower: "toLowerCase requested \<noteq> ''first_contact'' \<Longrightarrow>
      normalizeIntentForStage nt stage (JStr requested) hasAnyContact
        = (if toLowerCase requested \<in> set allowedIntents then toLowerCase requested
           else ''nurture_checkin'')"
    using empty by (cases "requested = []") (simp_all add: normalizeIntentForStage_def Let_def)
  have same: "requested \<in> set allowedIntents \<and> requested \<noteq> ''first_contact'' \<Longrightarrow>
      normalizeIntentForStage nt stage (JStr requested) hasAnyContact = requested"
    using lower toLowerCase_allowed [of requested] by simp
  show ?thesis
    using normalize_in_enumeration ten absent present lower same by blast
qed

theorem normalize_result_in_enumeration_witness:
  "normalizeIntentForStage sample_numText (JStr ''Won'') (JStr ''Invoice_Final'') True
     = ''invoice_final''
   \<and> normalizeIntentForStage sample_numText (JStr ''Won'') (JStr ''cold_call'') True
     = ''nurture_checkin''
   \<and> normalizeIntentForStage sample_numText (JStr ''Won'') (JStr ''meeting_reminder'') True
     = ''meeting_reminder''"
proof -
  have a: "toLowerCase ''Invoice_Final'' = ''invoice_final''"
    and b: "toLowerCase ''cold_call'' = ''cold_call''"
    by (simp_all add: toLowerCase_def lower_char_def)
  have c: "''invoice_final'' \<in> set allowedIntents" "''cold_call'' \<notin> set allowedIntents"
    "''meeting_reminder'' \<in> set allowedIntents"
    by (simp_all add: allowedIntents_def)
  show ?thesis
    using normalize_result_in_enumeration
            [of sample_numText "JStr ''Won''" JUndefined True "''Invoice_Final''"]
          normalize_result_in_enumeration
            [of sample_numText "JStr ''Won''" JUndefined True "''cold_call''"]
          normalize_result_in_enumeration
            [of sample_numText "JStr ''Won''" JUndefined True "''meeting_reminder''"]
    by (simp add: a b c)
qed

section \<open>Validation and scheduling: properties\<close>


lemma map_step_fields [simp]:
  "offsetDays (map_step rt stage h c) = offsetDays c"
  "channel (map_step rt stage h c) = channel c"
  "goal (map_step rt stage h c) = goal c"
  "js_includes allowedIntents (intent (map_step rt stage h c))"
  by (simp_all add: map_step_def normalize_in_enumeration)









section \<open>The store: the invariant\<close>

lemma run_statement_invariant:
  "keeps_invariant st \<Longrightarrow> world_invariant w \<Longrightarrow> world_invariant (snd (run_statement t st w))"
  by (cases st)
     (auto simp: world_invariant_def logged_def insert_row_def values_invariant_def
        step_invariant_def list_all_iff split: option.splits if_splits)

lemma run_queue_invariant:
  "\<forall>x \<in> set q. keeps_invariant (fst x) \<Longrightarrow> world_invariant w
     \<Longrightarrow> world_invariant (snd (run_queue t q b w))"
proof (induction t q b w rule: run_queue.induct)
  case (1 t b w)
  then show ?case by simp
next
  case (2 t st q b w)
  then show ?case using run_statement_invariant [of st w t] by simp
next
  case (3 t st q b w)
  have inv: "world_invariant (snd (run_statement t st w))"
    using 3 run_statement_invariant [of st w t] by simp
  show ?case
  proof (cases "run_statement t st w")
    case (Pair err w')
    with inv have w': "world_invariant w'" by simp
    show ?thesis
    proof (cases err)
      case None
      with Pair 3 w' show ?thesis by simp
    next
      case (Some e)
      with Pair 3 w' show ?thesis by simp
    qed
  qed
next
  case (4 t st err q b w)
  then show ?case using run_statement_invariant [of st w t] by simp
next
  case (5 t st q b w)
  have inv: "world_invariant (snd (run_statement t st w))"
    using 5 run_statement_invariant [of st w t] by simp
  show ?case
  proof (cases "run_statement t st w")
    case (Pair err w')
    with inv 5 show ?thesis by simp
  qed
qed

lemma queue_inserts_eq:
  "\<not> hasErrored b \<Longrightarrow>
     queue_inserts rt b ss k
       = (map insert_entry (batch_values rt ss k), k + length (filter lacks_id ss))"
  by (induction ss arbitrary: k) (simp_all add: insert_entry_def)

lemma bound_values_invariant: "values_invariant (bound_values rt s k)"
  by (simp add: bound_values_def values_invariant_def Let_def)

lemma batch_values_invariant: "\<forall>v \<in> set (batch_values rt ss k). values_invariant v"
  by (induction ss arbitrary: k) (simp_all add: bound_values_invariant)

lemma world_invariant_uuid [simp]:
  "world_invariant (w\<lparr>uuid_calls := k\<rparr>) = world_invariant w"
  by (simp add: world_invariant_def)

lemma createOutreachSteps_Array:
  "ss \<noteq> [] \<Longrightarrow>
     createOutreachSteps rt (Array ss) w =
       (callback_calls
          (fst (run_queue (now rt)
                  ((BEGIN_TRANSACTION, NoCallback)
                     # map insert_entry (batch_values rt ss (uuid_calls w)))
                  \<lparr>hasErrored = False, remaining = int (length ss), callback_calls = []\<rparr>
                  (w\<lparr>uuid_calls := uuid_calls w + length (filter lacks_id ss)\<rparr>))),
        snd (run_queue (now rt)
               ((BEGIN_TRANSACTION, NoCallback)
                  # map insert_entry (batch_values rt ss (uuid_calls w)))
               \<lparr>hasErrored = False, remaining = int (length ss), callback_calls = []\<rparr>
               (w\<lparr>uuid_calls := uuid_calls w + length (filter lacks_id ss)\<rparr>)))"
  by (simp add: createOutreachSteps_def queue_inserts_eq Let_def case_prod_beta
        del: run_queue.simps)

lemma createOutreachSteps_invariant:
  "world_invariant w \<Longrightarrow> world_invariant (snd (createOutreachSteps rt steps w))"
proof (cases steps)
  case NotAnArray
  assume "world_invariant w"
  with NotAnArray show ?thesis by (simp add: createOutreachSteps_def)
next
  case (Array ss)
  assume w: "world_invariant w"
  show ?thesis
  proof (cases "ss = []")
    case True
    with Array w show ?thesis by (simp add: createOutreachSteps_def)
  next
    case False
    let ?q = "(BEGIN_TRANSACTION, NoCallback) # map insert_entry (batch_values rt ss (uuid_calls w))"
    have q: "\<forall>x \<in> set ?q. keeps_invariant (fst x)"
      using batch_values_invariant [of rt ss "uuid_calls w"] by (auto simp: insert_entry_def)
    have "world_invariant (snd (run_queue (now rt) ?q
             \<lparr>hasErrored = False, remaining = int (length ss), callback_calls = []\<rparr>
             (w\<lparr>uuid_calls := uuid_calls w + length (filter lacks_id ss)\<rparr>)))"
      by (rule run_queue_invariant [OF q]) (simp add: w)
    with Array False show ?thesis
      by (simp add: createOutreachSteps_Array del: run_queue.simps)
  qed
qed

lemma updateOutreachStepStatus_world:
  "snd (updateOutreachStepStatus rt stepId status w)
     = snd (run_statement (now rt)
              (UPDATE_STATUS status (if status = Some ''pending'' then None else Some (now rt))
                 stepId) w)"
  by (simp add: updateOutreachStepStatus_def Let_def split: prod.splits option.splits
        del: run_statement.simps)

lemma updateOutreachStepStatus_invariant:
  "world_invariant w \<Longrightarrow> world_invariant (snd (updateOutreachStepStatus rt stepId status w))"
  unfolding updateOutreachStepStatus_world
  by (rule run_statement_invariant) simp_all

lemma reachable_invariant: "reachable w \<Longrightarrow> world_invariant w"
proof (induction rule: reachable.induct)
  case (initial k)
  show ?case by (simp add: world_invariant_def)
next
  case (insertBatch w rt steps)
  then show ?case by (simp add: createOutreachSteps_invariant)
next
  case (setStatus w rt stepId status)
  then show ?case by (simp add: updateOutreachStepStatus_invariant)
next
  case (uuid w k)
  then show ?case by simp
qed

text \<open>
  C3. In every state of the store reached from the empty table, after a batch insert and
  after a status update each stored step has the status \<open>pending\<close> exactly when its
  \<open>completedAt\<close> is null.
\<close>

theorem stored_steps_keep_invariant:
  assumes "reachable w"
  shows "(\<forall>r \<in> set (outreach_steps (snd (createOutreachSteps rt steps w))).
            (row_status r = ''pending'') = (row_completedAt r = None))
         \<and> (\<forall>r \<in> set (outreach_steps (snd (updateOutreachStepStatus rt stepId status w))).
            (row_status r = ''pending'') = (row_completedAt r = None))"
proof -
  have w: "world_invariant w"
    using assms by (rule reachable_invariant)
  have "world_invariant (snd (createOutreachSteps rt steps w))"
    and "world_invariant (snd (updateOutreachStepStatus rt stepId status w))"
    using w by (simp_all add: createOutreachSteps_invariant updateOutreachStepStatus_invariant)
  then show ?thesis
    by (simp add: world_invariant_def list_all_iff step_invariant_def)
qed

theorem stored_steps_keep_invariant_witness:
  "reachable sample_empty
   \<and> map row_status
        (outreach_steps (snd (createOutreachSteps sample_runtime (Array (butlast sample_batch))
                                sample_empty)))
       = [''pending'', ''done'']
   \<and> list_all step_invariant
        (outreach_steps (snd (createOutreachSteps sample_runtime (Array (butlast sample_batch))
                                sample_empty)))
   \<and> map row_status
        (outreach_steps
           (snd (updateOutreachStepStatus sample_runtime ''a'' (Some ''skipped'')
                   (snd (createOutreachSteps sample_runtime (Array (butlast sample_batch))
                           sample_empty)))))
       = [''skipped'', ''done'']
   \<and> list_all step_invariant
        (outreach_steps
           (snd (updateOutreachStepStatus sample_runtime ''a'' (Some ''skipped'')
                   (snd (createOutreachSteps sample_runtime (Array (butlast sample_batch))
                           sample_empty)))))"
proof -
  let ?w1 = "snd (createOutreachSteps sample_runtime (Array (butlast sample_batch)) sample_empty)"
  have r: "reachable sample_empty"
    unfolding sample_empty_def by (rule reachable.initial)
  have r1: "reachable ?w1"
    using r by (rule reachable.insertBatch)
  have s: "map row_status (outreach_steps ?w1) = [''pending'', ''done'']"
    by code_simp
  have s1: "map row_status
              (outreach_steps (snd (updateOutreachStepStatus sample_runtime ''a'' (Some ''skipped'') ?w1)))
            = [''skipped'', ''done'']"
    by code_simp
  have a: "list_all step_invariant (outreach_steps ?w1)"
    using stored_steps_keep_invariant
            [OF r, where rt = sample_runtime and steps = "Array (butlast sample_batch)"]
    by (simp add: list_all_iff step_invariant_def)
  have b: "list_all step_invariant
             (outreach_steps (snd (updateOutreachStepStatus sample_runtime ''a'' (Some ''skipped'') ?w1)))"
    using stored_steps_keep_invariant
            [OF r1, where rt = sample_runtime and stepId = "''a''" and status = "Some ''skipped''"]
    by (simp add: list_all_iff step_invariant_def)
  show ?thesis
    using r s s1 a b by blast
qed

section \<open>The store: atomicity of a batch\<close>

lemma run_queue_rollbacks_closed:
  "rollback_image w = None \<Longrightarrow>
     run_queue t (map rollback_entry es) b w
       = (b\<lparr>callback_calls := callback_calls b @ map Some es\<rparr>,
          w\<lparr>executed := executed w @ replicate (length es) (ROLLBACK, Some SQLITE_ERROR)\<rparr>)"
proof (induction es arbitrary: b w)
  case Nil
  show ?case by simp
next
  case (Cons e es)
  have step: "snd (run_statement t ROLLBACK w) = w\<lparr>executed := executed w @ [(ROLLBACK, Some SQLITE_ERROR)]\<rparr>"
    using Cons.prems by (simp add: logged_def)
  have "run_queue t (map rollback_entry (e # es)) b w
          = run_queue t (map rollback_entry es) (b\<lparr>callback_calls := callback_calls b @ [Some e]\<rparr>)
              (w\<lparr>executed := executed w @ [(ROLLBACK, Some SQLITE_ERROR)]\<rparr>)"
    using step by (simp add: rollback_entry_def)
  also have "\<dots> = (b\<lparr>callback_calls := callback_calls b @ map Some (e # es)\<rparr>,
          w\<lparr>executed := executed w @ replicate (length (e # es)) (ROLLBACK, Some SQLITE_ERROR)\<rparr>)"
    using Cons.prems by (subst Cons.IH) (simp_all add: replicate_append_same)
  finally show ?case .
qed

lemma run_queue_rollbacks_open:
  "rollback_image w = Some r0 \<Longrightarrow> es \<noteq> [] \<Longrightarrow>
     run_queue t (map rollback_entry es) b w
       = (b\<lparr>callback_calls := callback_calls b @ map Some es\<rparr>,
          w\<lparr>outreach_steps := r0, rollback_image := None,
            executed := executed w @ rollbacks (length es)\<rparr>)"
proof (cases es)
  case Nil
  assume "es \<noteq> []"
  with Nil show ?thesis by simp
next
  case (Cons e es')
  assume img: "rollback_image w = Some r0"
  have step: "snd (run_statement t ROLLBACK w)
      = w\<lparr>outreach_steps := r0, rollback_image := None, executed := executed w @ [(ROLLBACK, None)]\<rparr>"
    using img by (simp add: logged_def)
  have "run_queue t (map rollback_entry es) b w
          = run_queue t (map rollback_entry es') (b\<lparr>callback_calls := callback_calls b @ [Some e]\<rparr>)
              (w\<lparr>outreach_steps := r0, rollback_image := None, executed := executed w @ [(ROLLBACK, None)]\<rparr>)"
    using step Cons by (simp add: rollback_entry_def)
  also have "\<dots> = (b\<lparr>callback_calls := callback_calls b @ map Some es\<rparr>,
          w\<lparr>outreach_steps := r0, rollback_image := None,
            executed := executed w @ rollbacks (length es)\<rparr>)"
    using Cons by (subst run_queue_rollbacks_closed) (simp_all add: rollbacks_def)
  finally show ?thesis .
qed

lemma replay_Cons_fail:
  "insert_row t v rows = None \<Longrightarrow>
     fst (replay t (v # vs) rows) = fst (replay t vs rows)
     \<and> snd (replay t (v # vs) rows) = Some SQLITE_CONSTRAINT # snd (replay t vs rows)"
  by (simp add: case_prod_beta)

lemma replay_Cons_ok:
  "insert_row t v rows = Some rows1 \<Longrightarrow>
     fst (replay t (v # vs) rows) = fst (replay t vs rows1)
     \<and> snd (replay t (v # vs) rows) = None # snd (replay t vs rows1)"
  by (simp add: case_prod_beta)

lemma run_insert_fail:
  "insert_row t v (outreach_steps w) = None \<Longrightarrow>
     run_queue t (insert_entry v # q) b w
       = run_queue t (q @ [rollback_entry SQLITE_CONSTRAINT]) (b\<lparr>hasErrored := True\<rparr>)
           (w\<lparr>executed := executed w @ [(INSERT v, Some SQLITE_CONSTRAINT)]\<rparr>)"
  by (simp add: insert_entry_def rollback_entry_def logged_def)

lemma run_insert_ok:
  "insert_row t v (outreach_steps w) = Some rows1 \<Longrightarrow>
     run_queue t (insert_entry v # q) b w
       = (if remaining b - 1 = 0 \<and> \<not> hasErrored b
          then run_queue t (q @ [(COMMIT, CommitCallback)]) (b\<lparr>remaining := remaining b - 1\<rparr>)
                 (w\<lparr>outreach_steps := rows1, executed := executed w @ [(INSERT v, None)]\<rparr>)
          else run_queue t q (b\<lparr>remaining := remaining b - 1\<rparr>)
                 (w\<lparr>outreach_steps := rows1, executed := executed w @ [(INSERT v, None)]\<rparr>))"
  by (simp add: insert_entry_def logged_def)

lemma outcome_errored:
  "hasErrored b \<Longrightarrow> rollback_image w = Some r0 \<Longrightarrow> es \<noteq> [] \<Longrightarrow>
     outcome t (map insert_entry vs @ map rollback_entry es) b w
       = (callback_calls b @ map Some (es @ errors_of (snd (replay t vs (outreach_steps w)))),
          w\<lparr>outreach_steps := r0, rollback_image := None,
            executed := executed w @ zip (map INSERT vs) (snd (replay t vs (outreach_steps w)))
                          @ rollbacks (length es + length (errors_of (snd (replay t vs (outreach_steps w)))))\<rparr>)"
proof (induction vs arbitrary: es b w)
  case Nil
  then show ?case
    by (simp add: outcome_def run_queue_rollbacks_open del: run_queue.simps)
next
  case (Cons v vs)
  show ?case
  proof (cases "insert_row t v (outreach_steps w)")
    case None
    let ?w1 = "w\<lparr>executed := executed w @ [(INSERT v, Some SQLITE_CONSTRAINT)]\<rparr>"
    have "outcome t (map insert_entry (v # vs) @ map rollback_entry es) b w
            = outcome t (map insert_entry vs @ map rollback_entry (es @ [SQLITE_CONSTRAINT]))
                (b\<lparr>hasErrored := True\<rparr>) ?w1"
      using run_insert_fail [OF None] by (simp add: outcome_def del: run_queue.simps)
    also have "\<dots> = (callback_calls b @ map Some ((es @ [SQLITE_CONSTRAINT]) @ errors_of (snd (replay t vs (outreach_steps w)))),
          ?w1\<lparr>outreach_steps := r0, rollback_image := None,
            executed := executed ?w1 @ zip (map INSERT vs) (snd (replay t vs (outreach_steps w)))
                          @ rollbacks (length (es @ [SQLITE_CONSTRAINT]) + length (errors_of (snd (replay t vs (outreach_steps w)))))\<rparr>)"
      using Cons.prems by (subst Cons.IH) simp_all
    finally show ?thesis
      using replay_Cons_fail [OF None, of vs] by simp
  next
    case (Some rows1)
    let ?w1 = "w\<lparr>outreach_steps := rows1, executed := executed w @ [(INSERT v, None)]\<rparr>"
    have "outcome t (map insert_entry (v # vs) @ map rollback_entry es) b w
            = outcome t (map insert_entry vs @ map rollback_entry es)
                (b\<lparr>remaining := remaining b - 1\<rparr>) ?w1"
      using run_insert_ok [OF Some] Cons.prems by (simp add: outcome_def del: run_queue.simps)
    also have "\<dots> = (callback_calls b @ map Some (es @ errors_of (snd (replay t vs rows1))),
          ?w1\<lparr>outreach_steps := r0, rollback_image := None,
            executed := executed ?w1 @ zip (map INSERT vs) (snd (replay t vs rows1))
                          @ rollbacks (length es + length (errors_of (snd (replay t vs rows1))))\<rparr>)"
      using Cons.prems by (subst Cons.IH) simp_all
    finally show ?thesis
      using replay_Cons_ok [OF Some, of vs] by simp
  qed
qed

lemma outcome_clean:
  "\<not> hasErrored b \<Longrightarrow> remaining b = int (length vs) \<Longrightarrow> vs \<noteq> [] \<Longrightarrow>
   rollback_image w = Some r0 \<Longrightarrow>
     outcome t (map insert_entry vs) b w
       = (if errors_of (snd (replay t vs (outreach_steps w))) = []
          then (callback_calls b @ [None],
                w\<lparr>outreach_steps := fst (replay t vs (outreach_steps w)), rollback_image := None,
                  executed := executed w @ zip (map INSERT vs) (snd (replay t vs (outreach_steps w)))
                                @ [(COMMIT, None)]\<rparr>)
          else (callback_calls b @ map Some (errors_of (snd (replay t vs (outreach_steps w)))),
                w\<lparr>outreach_steps := r0, rollback_image := None,
                  executed := executed w @ zip (map INSERT vs) (snd (replay t vs (outreach_steps w)))
                                @ rollbacks (length (errors_of (snd (replay t vs (outreach_steps w)))))\<rparr>))"
proof (induction vs arbitrary: b w)
  case Nil
  then show ?case by simp
next
  case (Cons v vs)
  show ?case
  proof (cases "insert_row t v (outreach_steps w)")
    case None
    let ?w1 = "w\<lparr>executed := executed w @ [(INSERT v, Some SQLITE_CONSTRAINT)]\<rparr>"
    have "outcome t (map insert_entry (v # vs)) b w
            = outcome t (map insert_entry vs @ map rollback_entry [SQLITE_CONSTRAINT])
                (b\<lparr>hasErrored := True\<rparr>) ?w1"
      using run_insert_fail [OF None] by (simp add: outcome_def del: run_queue.simps)
    also have "\<dots> = (callback_calls b @ map Some ([SQLITE_CONSTRAINT] @ errors_of (snd (replay t vs (outreach_steps w)))),
          ?w1\<lparr>outreach_steps := r0, rollback_image := None,
            executed := executed ?w1 @ zip (map INSERT vs) (snd (replay t vs (outreach_steps w)))
                          @ rollbacks (length [SQLITE_CONSTRAINT] + length (errors_of (snd (replay t vs (outreach_steps w)))))\<rparr>)"
      using Cons.prems by (subst outcome_errored [where ?r0.0 = r0]) simp_all
    finally show ?thesis
      using replay_Cons_fail [OF None, of vs] by simp
  next
    case (Some rows1)
    let ?w1 = "w\<lparr>outreach_steps := rows1, executed := executed w @ [(INSERT v, None)]\<rparr>"
    let ?b1 = "b\<lparr>remaining := remaining b - 1\<rparr>"
    show ?thesis
    proof (cases "vs = []")
      case True
      have "outcome t (map insert_entry (v # vs)) b w
              = outcome t [(COMMIT, CommitCallback)] ?b1 ?w1"
        using run_insert_ok [OF Some, of "[]" b] Cons.prems True
        by (simp add: outcome_def del: run_queue.simps)
      also have "\<dots> = (callback_calls b @ [None],
            ?w1\<lparr>rollback_image := None, executed := executed ?w1 @ [(COMMIT, None)]\<rparr>)"
        using Cons.prems by (simp add: outcome_def logged_def)
      finally show ?thesis
        using replay_Cons_ok [OF Some, of vs] True by simp
    next
      case False
      have "outcome t (map insert_entry (v # vs)) b w = outcome t (map insert_entry vs) ?b1 ?w1"
        using run_insert_ok [OF Some, of "map insert_entry vs" b] Cons.prems False
        by (simp add: outcome_def del: run_queue.simps)
      also have "\<dots> = (if errors_of (snd (replay t vs rows1)) = []
          then (callback_calls b @ [None],
                ?w1\<lparr>outreach_steps := fst (replay t vs rows1), rollback_image := None,
                  executed := executed ?w1 @ zip (map INSERT vs) (snd (replay t vs rows1))
                                @ [(COMMIT, None)]\<rparr>)
          else (callback_calls b @ map Some (errors_of (snd (replay t vs rows1))),
                ?w1\<lparr>outreach_steps := r0, rollback_image := None,
                  executed := executed ?w1 @ zip (map INSERT vs) (snd (replay t vs rows1))
                                @ rollbacks (length (errors_of (snd (replay t vs rows1))))\<rparr>))"
        using Cons.prems False by (subst Cons.IH) simp_all
      finally show ?thesis
        using replay_Cons_ok [OF Some, of vs] by simp
    qed
  qed
qed

lemma replay_length: "length (snd (replay t vs rows)) = length vs"
  by (induction vs arbitrary: rows) (simp_all add: case_prod_beta split: option.splits)

lemma batch_values_length: "length (batch_values rt ss k) = length ss"
  by (induction ss arbitrary: k) simp_all

lemma createOutreachSteps_outcome:
  assumes "rollback_image w = None" and "ss \<noteq> []"
  shows "createOutreachSteps rt (Array ss) w =
     (if errors_of (snd (replay (now rt) (batch_values rt ss (uuid_calls w)) (outreach_steps w))) = []
      then ([None],
            w\<lparr>outreach_steps := fst (replay (now rt) (batch_values rt ss (uuid_calls w)) (outreach_steps w)),
              executed := executed w @ (BEGIN_TRANSACTION, None)
                # zip (map INSERT (batch_values rt ss (uuid_calls w)))
                      (snd (replay (now rt) (batch_values rt ss (uuid_calls w)) (outreach_steps w)))
                @ [(COMMIT, None)],
              uuid_calls := uuid_calls w + length (filter lacks_id ss)\<rparr>)
      else (map Some (errors_of (snd (replay (now rt) (batch_values rt ss (uuid_calls w)) (outreach_steps w)))),
            w\<lparr>executed := executed w @ (BEGIN_TRANSACTION, None)
                # zip (map INSERT (batch_values rt ss (uuid_calls w)))
                      (snd (replay (now rt) (batch_values rt ss (uuid_calls w)) (outreach_steps w)))
                @ rollbacks (length (errors_of (snd (replay (now rt) (batch_values rt ss (uuid_calls w)) (outreach_steps w))))),
              uuid_calls := uuid_calls w + length (filter lacks_id ss)\<rparr>))"
proof -
  let ?vs = "batch_values rt ss (uuid_calls w)"
  let ?b0 = "\<lparr>hasErrored = False, remaining = int (length ss), callback_calls = []\<rparr>"
  let ?w0 = "w\<lparr>uuid_calls := uuid_calls w + length (filter lacks_id ss)\<rparr>"
  let ?w1 = "?w0\<lparr>rollback_image := Some (outreach_steps w),
                 executed := executed w @ [(BEGIN_TRANSACTION, None)]\<rparr>"
  have len: "length ?vs = length ss"
    by (rule batch_values_length)
  have vs: "?vs \<noteq> []"
    using len assms(2) by auto
  have "createOutreachSteps rt (Array ss) w
          = outcome (now rt) ((BEGIN_TRANSACTION, NoCallback) # map insert_entry ?vs) ?b0 ?w0"
    using assms(2) by (simp add: createOutreachSteps_Array outcome_def del: run_queue.simps)
  also have "\<dots> = outcome (now rt) (map insert_entry ?vs) ?b0 ?w1"
    using assms(1) by (simp add: outcome_def logged_def)
  finally show ?thesis
    using vs len assms(1)
    by (auto simp: outcome_clean [where ?r0.0 = "outreach_steps w"] intro!: world.equality)
qed

lemma createOutreachSteps_no_transaction:
  assumes "rollback_image w = None"
  shows "rollback_image (snd (createOutreachSteps rt steps w)) = None"
proof (cases steps)
  case NotAnArray
  with assms show ?thesis by (simp add: createOutreachSteps_def)
next
  case (Array ss)
  show ?thesis
  proof (cases "ss = []")
    case True
    with Array assms show ?thesis by (simp add: createOutreachSteps_def)
  next
    case False
    with Array assms show ?thesis
      by (simp add: createOutreachSteps_outcome [OF assms False])
  qed
qed

lemma reachable_no_transaction: "reachable w \<Longrightarrow> rollback_image w = None"
proof (induction rule: reachable.induct)
  case (initial k)
  show ?case by simp
next
  case (insertBatch w rt steps)
  then show ?case by (simp add: createOutreachSteps_no_transaction)
next
  case (setStatus w rt stepId status)
  then show ?case
    by (simp add: updateOutreachStepStatus_world logged_def split: option.splits)
next
  case (uuid w k)
  then show ?case by simp
qed

lemma replay_failed_insert:
  "list_ex failed_insert (zip (map INSERT vs) (snd (replay t vs rows)))
     = (errors_of (snd (replay t vs rows)) \<noteq> [])"
  by (induction vs arbitrary: rows) (simp_all add: case_prod_beta split: option.splits)

lemma rollbacks_not_insert: "\<not> list_ex failed_insert (rollbacks n)"
  by (simp add: rollbacks_def list_ex_iff)

text \<open>
  C2. When no transaction is open before the call (as in every reachable state) and an
  insert of the batch fails, the table is afterwards as it was before the call, no
  transaction is left open, and the callback receives an error and never \<^verbatim>\<open>null\<close>: no
  step of the batch is stored.
\<close>

theorem failed_insert_rolls_back_batch:
  assumes "rollback_image w = None"
    and "list_ex failed_insert (executed_since w (snd (createOutreachSteps rt steps w)))"
  shows "outreach_steps (snd (createOutreachSteps rt steps w)) = outreach_steps w
         \<and> rollback_image (snd (createOutreachSteps rt steps w)) = None
         \<and> fst (createOutreachSteps rt steps w) \<noteq> []
         \<and> None \<notin> set (fst (createOutreachSteps rt steps w))"
proof (cases steps)
  case NotAnArray
  with assms(2) show ?thesis
    by (simp add: createOutreachSteps_def executed_since_def)
next
  case (Array ss)
  show ?thesis
  proof (cases "ss = []")
    case True
    with Array assms(2) show ?thesis
      by (simp add: createOutreachSteps_def executed_since_def)
  next
    case False
    let ?R = "replay (now rt) (batch_values rt ss (uuid_calls w)) (outreach_steps w)"
    have "errors_of (snd ?R) \<noteq> []"
    proof (rule ccontr)
      assume "\<not> errors_of (snd ?R) \<noteq> []"
      then have none: "errors_of (snd ?R) = []" by simp
      then have "\<not> list_ex failed_insert (zip (map INSERT (batch_values rt ss (uuid_calls w))) (snd ?R))"
        by (simp add: replay_failed_insert)
      with assms(2) Array False none show False
        by (simp add: createOutreachSteps_outcome [OF assms(1) False] executed_since_def)
    qed
    with Array False assms(1) show ?thesis
      by (simp add: createOutreachSteps_outcome [OF assms(1) False])
  qed
qed

theorem failed_insert_rolls_back_batch_witness:
  "rollback_image sample_world = None
   \<and> length sample_batch = 3
   \<and> map snd (executed_since sample_world
                 (snd (createOutreachSteps sample_runtime (Array sample_batch) sample_world)))
       = [None, None, None, Some SQLITE_CONSTRAINT, None]
   \<and> list_ex failed_insert
        (executed_since sample_world
           (snd (createOutreachSteps sample_runtime (Array sample_batch) sample_world)))
   \<and> outreach_steps (snd (createOutreachSteps sample_runtime (Array sample_batch) sample_world))
       = outreach_steps sample_world
   \<and> fst (createOutreachSteps sample_runtime (Array sample_batch) sample_world) \<noteq> []"
proof -
  have a: "rollback_image sample_world = None"
    by (simp add: sample_world_def)
  have b: "list_ex failed_insert
        (executed_since sample_world
           (snd (createOutreachSteps sample_runtime (Array sample_batch) sample_world)))"
    by code_simp
  have c: "length sample_batch = 3"
    by (simp add: sample_batch_def)
  have d: "map snd (executed_since sample_world
                 (snd (createOutreachSteps sample_runtime (Array sample_batch) sample_world)))
       = [None, None, None, Some SQLITE_CONSTRAINT, None]"
    by code_simp
  show ?thesis
    using failed_insert_rolls_back_batch [OF a b] a b c d by simp
qed

text \<open>
  C10. Called with a value that is not an array, or with the empty array, the store calls
  back with \<^verbatim>\<open>null\<close> once and leaves the connection as it was: it executes no statement,
  opens no transaction and changes no row.
\<close>

theorem empty_batch_writes_nothing:
  "createOutreachSteps rt NotAnArray w = ([None], w)
   \<and> createOutreachSteps rt (Array []) w = ([None], w)
   \<and> executed_since w (snd (createOutreachSteps rt NotAnArray w)) = []
   \<and> executed_since w (snd (createOutreachSteps rt (Array []) w)) = []"
  by (simp add: createOutreachSteps_def executed_since_def)

section \<open>The store: status updates\<close>

lemma changes_zero: "(changes stepId w = 0) = (stepId \<notin> set (map row_id (outreach_steps w)))"
  by (auto simp: changes_def filter_empty_conv)

lemma updateOutreachStepStatus_Some:
  "updateOutreachStepStatus rt stepId (Some status) w =
     (Inr (stepId \<notin> set (map row_id (outreach_steps w))),
      w\<lparr>outreach_steps :=
          map (\<lambda>r. if row_id r = stepId
                   then r\<lparr>row_status := status,
                          row_completedAt := (if status = ''pending'' then None else Some (now rt))\<rparr>
                   else r)
              (outreach_steps w),
        executed := executed w
          @ [(UPDATE_STATUS (Some status) (if status = ''pending'' then None else Some (now rt)) stepId,
              None)]\<rparr>)"
  by (simp add: updateOutreachStepStatus_def Let_def logged_def changes_zero)

lemma map_id_absent:
  "stepId \<notin> set (map row_id rows) \<Longrightarrow>
     map (\<lambda>r. if row_id r = stepId then f r else r) rows = rows"
  by (induction rows) auto

text \<open>
  C9. A status update sets the status of the step with that id, and sets its
  \<open>completedAt\<close> to the current time when the new status is not \<open>pending\<close> and to null
  when it is. For an id that is not in the table it changes no row and calls back with
  \<^verbatim>\<open>{notFound: true}\<close>, not with an error, and the route answers 404; for an id in the
  table the route answers 200 with the status.
\<close>

theorem setStatus_completedAt_and_not_found:
  "updateOutreachStepStatus rt stepId (Some status) w =
     (Inr (stepId \<notin> set (map row_id (outreach_steps w))),
      w\<lparr>outreach_steps :=
          map (\<lambda>r. if row_id r = stepId
                   then r\<lparr>row_status := status,
                          row_completedAt := (if status = ''pending'' then None else Some (now rt))\<rparr>
                   else r)
              (outreach_steps w),
        executed := executed w
          @ [(UPDATE_STATUS (Some status) (if status = ''pending'' then None else Some (now rt)) stepId,
              None)]\<rparr>)
   \<and> (stepId \<noteq> [] \<and> status \<in> set allowedStatuses
        \<and> stepId \<notin> set (map row_id (outreach_steps w)) \<longrightarrow>
        fst (updateOutreachStepStatus rt stepId (Some status) w) = Inr True
        \<and> fst (patch_status rt stepId (JStr status) w)
            = ErrorResponse 404 ''Outreach step not found''
        \<and> outreach_steps (snd (patch_status rt stepId (JStr status) w)) = outreach_steps w)
   \<and> (stepId \<noteq> [] \<and> status \<in> set allowedStatuses
        \<and> stepId \<in> set (map row_id (outreach_steps w)) \<longrightarrow>
        fst (patch_status rt stepId (JStr status) w) = OkStatus (JStr status)
        \<and> snd (patch_status rt stepId (JStr status) w)
            = snd (updateOutreachStepStatus rt stepId (Some status) w))"
  by (simp add: updateOutreachStepStatus_Some patch_status_def map_id_absent del: set_map)

theorem setStatus_completedAt_and_not_found_witness:
  "fst (patch_status sample_runtime ''missing'' (JStr ''done'') sample_world)
     = ErrorResponse 404 ''Outreach step not found''
   \<and> outreach_steps (snd (patch_status sample_runtime ''missing'' (JStr ''done'') sample_world))
     = outreach_steps sample_world
   \<and> fst (patch_status sample_runtime ''old'' (JStr ''skipped'') sample_world)
     = OkStatus (JStr ''skipped'')
   \<and> map row_completedAt
        (outreach_steps (snd (patch_status sample_runtime ''old'' (JStr ''skipped'') sample_world)))
     = [Some 1000]
   \<and> map row_completedAt
        (outreach_steps (snd (updateOutreachStepStatus sample_runtime ''old'' (Some ''pending'')
                                sample_world)))
     = [None]"
proof -
  have ids: "''missing'' \<notin> set (map row_id (outreach_steps sample_world))"
    "''old'' \<in> set (map row_id (outreach_steps sample_world))"
    by (simp_all add: sample_world_def)
  have st: "''done'' \<in> set allowedStatuses" "''skipped'' \<in> set allowedStatuses"
    by (simp_all add: allowedStatuses_def)
  have rows: "map row_id (outreach_steps sample_world) = [''old'']"
    "length (outreach_steps sample_world) = 1"
    by (simp_all add: sample_world_def)
  have t: "now sample_runtime = 1000"
    by (simp add: sample_runtime_def)
  have one: "\<And>f. map f (outreach_steps sample_world) = [f (hd (outreach_steps sample_world))]"
    by (simp add: sample_world_def)
  have hd: "row_id (hd (outreach_steps sample_world)) = ''old''"
    by (simp add: sample_world_def)
  show ?thesis
    using setStatus_completedAt_and_not_found [of sample_runtime "''missing''" "''done''" sample_world]
          setStatus_completedAt_and_not_found [of sample_runtime "''old''" "''skipped''" sample_world]
          setStatus_completedAt_and_not_found [of sample_runtime "''old''" "''pending''" sample_world]
          ids st
    by (simp add: t one hd del: set_map)
qed

section \<open>The orchestrator: what a request persists and returns\<close>

lemma stepsToInsert_count:
  "snd (stepsToInsert rt dealId horizon cs k) = k + length (fst (stepsToInsert rt dealId horizon cs k))"
  by (induction cs arbitrary: k) (simp_all add: case_prod_beta split: option.splits)






lemma buildAndStoreSteps_unfold:
  "buildAndStoreSteps rt stage hac dealId horizon modelSteps w =
     (case normalized_of rt stage hac modelSteps of
        Inl e \<Rightarrow> (Inl e, w)
      | Inr normalized \<Rightarrow>
          if fst (stepsToInsert rt dealId horizon normalized (uuid_calls w)) = []
          then (Inr None, w)
          else settle dealId
                 (createOutreachSteps rt
                    (Array (fst (stepsToInsert rt dealId horizon normalized (uuid_calls w))))
                    (w\<lparr>uuid_calls := uuid_calls w
                         + length (fst (stepsToInsert rt dealId horizon normalized (uuid_calls w)))\<rparr>)))"
proof (cases "normalized_of rt stage hac modelSteps")
  case (Inl e)
  then show ?thesis
    by (simp add: buildAndStoreSteps_def normalized_of_def)
next
  case (Inr normalized)
  obtain steps k where sk: "stepsToInsert rt dealId horizon normalized (uuid_calls w) = (steps, k)"
    by (cases "stepsToInsert rt dealId horizon normalized (uuid_calls w)")
  have k: "k = uuid_calls w + length steps"
    using stepsToInsert_count [of rt dealId horizon normalized "uuid_calls w"] sk by simp
  show ?thesis
  proof (cases "steps = []")
    case True
    with Inr sk k show ?thesis
      by (simp add: buildAndStoreSteps_def normalized_of_def [symmetric])
  next
    case False
    with Inr sk k show ?thesis
      by (simp add: buildAndStoreSteps_def normalized_of_def [symmetric] settle_def
            split: prod.splits list.splits option.splits)
  qed
qed











section \<open>The orchestrator: the fallback plan\<close>

lemma build_without_effect:
  assumes "fst (buildAndStoreSteps rt stage hac dealId horizon modelSteps w) \<in> {Inl TypeError, Inr None}"
  shows "snd (buildAndStoreSteps rt stage hac dealId horizon modelSteps w) = w"
  using assms
  by (auto simp: buildAndStoreSteps_unfold settle_def
        split: sum.splits if_splits prod.splits list.splits option.splits)

lemma stub_normalized:
  "normalized_of rt (JStr ''New'') hac (StepsArray stub)
     = Inr [\<lparr>offsetDays = JNum 0, channel = JStr ''email'', intent = JStr ''first_contact'',
              goal = JStr ''Send a concise intro email with value props and propose a short call.''\<rparr>,
            \<lparr>offsetDays = JNum 3, channel = JStr ''whatsapp'', intent = JStr ''nurture_checkin'',
              goal = JStr ''Lightly check in to see if they had a chance to review.''\<rparr>,
            \<lparr>offsetDays = JNum 7, channel = JStr ''call_script'', intent = JStr ''post_call_summary'',
              goal = JStr ''Call to recap fit, address questions, and agree next steps.''\<rparr>]"
  by (simp add: normalized_of_def stub_def map_step_def normalizeIntentForStage_def
        toLowerCase_def lower_char_def allowedIntents_def)

lemma stub_stepsToInsert:
  "fst (stepsToInsert rt dealId 14
     [\<lparr>offsetDays = JNum 0, channel = JStr ''email'', intent = JStr ''first_contact'',
              goal = JStr ''Send a concise intro email with value props and propose a short call.''\<rparr>,
            \<lparr>offsetDays = JNum 3, channel = JStr ''whatsapp'', intent = JStr ''nurture_checkin'',
              goal = JStr ''Lightly check in to see if they had a chance to review.''\<rparr>,
            \<lparr>offsetDays = JNum 7, channel = JStr ''call_script'', intent = JStr ''post_call_summary'',
              goal = JStr ''Call to recap fit, address questions, and agree next steps.''\<rparr>] k)
   = [stub_step rt dealId k 0 ''email'' ''first_contact''
        ''Send a concise intro email with value props and propose a short call.'',
      stub_step rt dealId (k + 1) 3 ''whatsapp'' ''nurture_checkin''
        ''Lightly check in to see if they had a chance to review.'',
      stub_step rt dealId (k + 2) 7 ''call_script'' ''post_call_summary''
        ''Call to recap fit, address questions, and agree next steps.'']"
  by (simp add: forEach_step_def allowedChannels_def allowedIntents_def Let_def stub_step_def
        setDate_getDate_plus_def setHours_def js_or_def)

lemma insert_stub_step:
  assumes "uuidv4 rt k \<noteq> []" and "uuidv4 rt k \<notin> set (map row_id rows)" and "g \<noteq> []"
  shows "insert_row (now rt) (bound_values rt (stub_step rt dealId k offset ch i g) k') rows
           = Some (rows @ [fallback_row rt dealId k offset ch i g])"
  using assms
  by (simp add: insert_row_def bound_values_def stub_step_def fallback_row_def lacks_id_def
        Let_def js_or_def)

lemma stub_step_has_id: "uuidv4 rt k \<noteq> [] \<Longrightarrow> \<not> lacks_id (stub_step rt dealId k offset ch i g)"
  by (simp add: lacks_id_def stub_step_def)

lemma fallback_row_id [simp]: "row_id (fallback_row rt dealId k offset ch i g) = uuidv4 rt k"
  by (simp add: fallback_row_def)

lemma handleStub_New:
  assumes "rollback_image w = None" and "next_ids_fresh rt w"
  shows "fst (handleStubResponse rt (JStr ''New'') hac dealId 14 w)
           = Inr (Some (getOutreachStepsForDeal dealId
                          (snd (handleStubResponse rt (JStr ''New'') hac dealId 14 w))))
         \<and> outreach_steps (snd (handleStubResponse rt (JStr ''New'') hac dealId 14 w))
           = outreach_steps w @ fallback_rows rt dealId (uuid_calls w)"
proof -
  let ?k = "uuid_calls w"
  let ?s0 = "stub_step rt dealId ?k 0 ''email'' ''first_contact''
        ''Send a concise intro email with value props and propose a short call.''"
  let ?s1 = "stub_step rt dealId (?k + 1) 3 ''whatsapp'' ''nurture_checkin''
        ''Lightly check in to see if they had a chance to review.''"
  let ?s2 = "stub_step rt dealId (?k + 2) 7 ''call_script'' ''post_call_summary''
        ''Call to recap fit, address questions, and agree next steps.''"
  let ?w0 = "w\<lparr>uuid_calls := ?k + 3\<rparr>"
  have ids: "uuidv4 rt ?k \<noteq> []" "uuidv4 rt (?k + 1) \<noteq> []" "uuidv4 rt (?k + 2) \<noteq> []"
    "uuidv4 rt ?k \<noteq> uuidv4 rt (?k + 1)" "uuidv4 rt ?k \<noteq> uuidv4 rt (?k + 2)"
    "uuidv4 rt (?k + 1) \<noteq> uuidv4 rt (?k + 2)"
    "uuidv4 rt ?k \<notin> set (map row_id (outreach_steps w))"
    "uuidv4 rt (?k + 1) \<notin> set (map row_id (outreach_steps w))"
    "uuidv4 rt (?k + 2) \<notin> set (map row_id (outreach_steps w))"
    using assms(2) by (auto simp: next_ids_fresh_def)
  have vals: "batch_values rt [?s0, ?s1, ?s2] (?k + 3)
      = [bound_values rt ?s0 (?k + 3), bound_values rt ?s1 (?k + 3), bound_values rt ?s2 (?k + 3)]"
    using ids(1-3) by (simp add: stub_step_has_id)
  have i0: "insert_row (now rt) (bound_values rt ?s0 (?k + 3)) (outreach_steps w)
      = Some (outreach_steps w @ [fallback_rows rt dealId ?k ! 0])"
    using ids by (simp add: insert_stub_step fallback_rows_def)
  have i1: "insert_row (now rt) (bound_values rt ?s1 (?k + 3))
        (outreach_steps w @ [fallback_rows rt dealId ?k ! 0])
      = Some (outreach_steps w @ [fallback_rows rt dealId ?k ! 0] @ [fallback_rows rt dealId ?k ! 1])"
    using ids by (simp add: insert_stub_step fallback_rows_def)
  have i2: "insert_row (now rt) (bound_values rt ?s2 (?k + 3))
        (outreach_steps w @ [fallback_rows rt dealId ?k ! 0] @ [fallback_rows rt dealId ?k ! 1])
      = Some (outreach_steps w @ fallback_rows rt dealId ?k)"
    using ids by (simp add: insert_stub_step fallback_rows_def)
  have "replay (now rt)
          [bound_values rt ?s0 (?k + 3), bound_values rt ?s1 (?k + 3), bound_values rt ?s2 (?k + 3)]
          (outreach_steps w)
      = (outreach_steps w @ fallback_rows rt dealId ?k, [None, None, None])"
    using i0 i1 i2 by simp
  then have rep: "replay (now rt) (batch_values rt [?s0, ?s1, ?s2] (?k + 3)) (outreach_steps w)
      = (outreach_steps w @ fallback_rows rt dealId ?k, [None, None, None])"
    using vals by simp
  have w0: "rollback_image ?w0 = None" using assms(1) by simp
  have create: "settle dealId (createOutreachSteps rt (Array [?s0, ?s1, ?s2]) ?w0)
      = (Inr (Some (getOutreachStepsForDeal dealId
                      (snd (createOutreachSteps rt (Array [?s0, ?s1, ?s2]) ?w0)))),
         snd (createOutreachSteps rt (Array [?s0, ?s1, ?s2]) ?w0))
      \<and> outreach_steps (snd (createOutreachSteps rt (Array [?s0, ?s1, ?s2]) ?w0))
          = outreach_steps w @ fallback_rows rt dealId ?k"
    using rep ids(1-3)
    by (simp add: createOutreachSteps_outcome [OF w0] settle_def stub_step_has_id
          del: batch_values.simps)
  have "handleStubResponse rt (JStr ''New'') hac dealId 14 w
          = settle dealId (createOutreachSteps rt (Array [?s0, ?s1, ?s2]) ?w0)"
    by (simp add: handleStubResponse_def buildAndStoreSteps_unfold stub_normalized
          stub_stepsToInsert numeral_3_eq_3 del: stepsToInsert.simps)
  with create show ?thesis by simp
qed

lemma respond_with_stub_New:
  assumes "rollback_image w = None" and "next_ids_fresh rt w"
  shows "fst (respond_with_stub rt (JStr ''New'') hac dealId 14 w)
           = OkSteps dealId (getOutreachStepsForDeal dealId
                               (snd (respond_with_stub rt (JStr ''New'') hac dealId 14 w)))
         \<and> outreach_steps (snd (respond_with_stub rt (JStr ''New'') hac dealId 14 w))
           = outreach_steps w @ fallback_rows rt dealId (uuid_calls w)"
  using handleStub_New [OF assms, of hac dealId]
  by (cases "handleStubResponse rt (JStr ''New'') hac dealId 14 w")
     (simp add: respond_with_stub_def)

lemma fallback_rows_fields:
  "map row_intent (fallback_rows rt dealId k) = [''first_contact'', ''nurture_checkin'', ''post_call_summary'']"
  "map (\<lambda>r. day (row_dueDate r) - day (today rt)) (fallback_rows rt dealId k) = [0, 3, 7]"
  "map (\<lambda>r. (hours (row_dueDate r), minutes (row_dueDate r), seconds (row_dueDate r),
              milliseconds (row_dueDate r))) (fallback_rows rt dealId k)
     = [(9, 0, 0, 0), (9, 0, 0, 0), (9, 0, 0, 0)]"
  "map row_status (fallback_rows rt dealId k) = [''pending'', ''pending'', ''pending'']"
  "map row_completedAt (fallback_rows rt dealId k) = [None, None, None]"
  "map row_dealId (fallback_rows rt dealId k) = [dealId, dealId, dealId]"
  by (simp_all add: fallback_rows_def fallback_row_def)

text \<open>
  C8. A deal in stage \<open>New\<close>, horizon 14, no transaction open and new ids from
  \<^verbatim>\<open>uuidv4\<close>. When no API key is set, or the completion call throws, or the steps it
  yields make \<^verbatim>\<open>buildAndStoreSteps\<close> throw a \<^verbatim>\<open>TypeError\<close> or leave no accepted
  candidate, the request answers 200 with the listing of the deal and persists exactly the
  three fallback steps: offsets 0, 3 and 7 days from today, intents \<open>first_contact\<close>,
  \<open>nurture_checkin\<close> and \<open>post_call_summary\<close>, all \<open>pending\<close>.
\<close>

theorem fallback_persists_three_steps:
  assumes "req_dealId req \<noteq> []"
    and "deal req = DealContext (JStr ''New'') lastActivityDate"
    and "parsedHorizon (req_horizonDays req) = 14"
    and "rollback_image w = None"
    and "next_ids_fresh rt w"
    and "\<not> OPENAI_API_KEY req
         \<or> completion req = CompletionThrows
         \<or> (\<exists>steps. completion req = CompletionSteps steps
               \<and> fst (buildAndStoreSteps rt (JStr ''New'')
                        (truthy lastActivityDate \<or> recentActivities req > 0)
                        (req_dealId req) 14 steps w) \<in> {Inl TypeError, Inr None})"
  shows "fst (outreach_plan rt req w)
           = OkSteps (req_dealId req)
               (getOutreachStepsForDeal (req_dealId req) (snd (outreach_plan rt req w)))
         \<and> outreach_steps (snd (outreach_plan rt req w))
           = outreach_steps w @ fallback_rows rt (req_dealId req) (uuid_calls w)
         \<and> persisted_since w (snd (outreach_plan rt req w))
           = fallback_rows rt (req_dealId req) (uuid_calls w)
         \<and> map (\<lambda>r. day (row_dueDate r) - day (today rt))
               (persisted_since w (snd (outreach_plan rt req w))) = [0, 3, 7]
         \<and> map row_intent (persisted_since w (snd (outreach_plan rt req w)))
           = [''first_contact'', ''nurture_checkin'', ''post_call_summary'']
         \<and> map row_status (persisted_since w (snd (outreach_plan rt req w)))
           = [''pending'', ''pending'', ''pending'']"
proof -
  let ?d = "req_dealId req"
  let ?hac = "truthy lastActivityDate \<or> recentActivities req > 0"
  let ?stub = "respond_with_stub rt (JStr ''New'') ?hac ?d 14 w"
  have stub: "fst ?stub = OkSteps ?d (getOutreachStepsForDeal ?d (snd ?stub))
              \<and> outreach_steps (snd ?stub) = outreach_steps w @ fallback_rows rt ?d (uuid_calls w)"
    by (rule respond_with_stub_New [OF assms(4,5)])
  have plan: "outreach_plan rt req w = ?stub"
  proof (cases "OPENAI_API_KEY req")
    case False
    with assms(1,2,3) show ?thesis
      by (simp add: outreach_plan_def Let_def js_or_def)
  next
    case key: True
    show ?thesis
    proof (cases "completion req")
      case CompletionThrows
      with key assms(1,2,3) show ?thesis
        by (simp add: outreach_plan_def Let_def js_or_def)
    next
      case (CompletionSteps steps)
      let ?R = "buildAndStoreSteps rt (JStr ''New'') ?hac ?d 14 steps w"
      from assms(6) key CompletionSteps have res: "fst ?R \<in> {Inl TypeError, Inr None}"
        by simp
      then have same: "snd ?R = w"
        by (rule build_without_effect)
      from res same have R: "?R = (Inl TypeError, w) \<or> ?R = (Inr None, w)"
        by (cases ?R) auto
      then show ?thesis
      proof
        assume "?R = (Inl TypeError, w)"
        with key CompletionSteps assms(1,2,3) show ?thesis
          by (simp add: outreach_plan_def Let_def js_or_def)
      next
        assume none: "?R = (Inr None, w)"
        obtain res2 w2 where h: "handleStubResponse rt (JStr ''New'') ?hac ?d 14 w = (res2, w2)"
          by (cases "handleStubResponse rt (JStr ''New'') ?hac ?d 14 w")
        with handleStub_New [OF assms(4,5), of ?hac ?d]
        have res2: "res2 = Inr (Some (getOutreachStepsForDeal ?d w2))" by simp
        from none h res2 key CompletionSteps assms(1,2,3) show ?thesis
          by (simp add: outreach_plan_def Let_def js_or_def respond_with_stub_def)
      qed
    qed
  qed
  have p: "persisted_since w (snd ?stub) = fallback_rows rt ?d (uuid_calls w)"
    using stub by (simp add: persisted_since_def)
  show ?thesis
    unfolding plan p using stub by (simp add: fallback_rows_fields)
qed

theorem fallback_persists_three_steps_witness:
  "next_ids_fresh sample_runtime sample_world
   \<and> fst (buildAndStoreSteps sample_runtime (JStr ''New'') False ''d1'' 14
            (StepsArray [EObj (sample_candidates ! 1), ENull]) sample_world) = Inl TypeError
   \<and> map row_intent (persisted_since sample_world
                       (snd (outreach_plan sample_runtime sample_request_with_key sample_world)))
       = [''first_contact'', ''nurture_checkin'', ''post_call_summary'']
   \<and> map (\<lambda>r. day (row_dueDate r) - day (today sample_runtime))
         (persisted_since sample_world
            (snd (outreach_plan sample_runtime sample_request sample_world))) = [0, 3, 7]"
proof -
  have a: "req_dealId sample_request \<noteq> []" "deal sample_request = DealContext (JStr ''New'') JNull"
    "parsedHorizon (req_horizonDays sample_request) = 14" "\<not> OPENAI_API_KEY sample_request"
    by (simp_all add: sample_request_def)
  have b: "req_dealId sample_request_with_key \<noteq> []"
    "deal sample_request_with_key = DealContext (JStr ''New'') JNull"
    "parsedHorizon (req_horizonDays sample_request_with_key) = 14"
    "completion sample_request_with_key
       = CompletionSteps (StepsArray [EObj (sample_candidates ! 1), ENull])"
    "req_dealId sample_request_with_key = ''d1''"
    "recentActivities sample_request_with_key = 0"
    by (simp_all add: sample_request_with_key_def sample_request_def)
  have c: "rollback_image sample_world = None"
    by (simp add: sample_world_def)
  have d: "next_ids_fresh sample_runtime sample_world"
    by (simp add: next_ids_fresh_def sample_runtime_def sample_uuidv4_def sample_world_def)
  have e: "fst (buildAndStoreSteps sample_runtime (JStr ''New'') False ''d1'' 14
            (StepsArray [EObj (sample_candidates ! 1), ENull]) sample_world) = Inl TypeError"
    by (simp add: buildAndStoreSteps_def)
  have t: "\<not> OPENAI_API_KEY sample_request_with_key
         \<or> completion sample_request_with_key = CompletionThrows
         \<or> (\<exists>steps. completion sample_request_with_key = CompletionSteps steps
               \<and> fst (buildAndStoreSteps sample_runtime (JStr ''New'')
                        (truthy JNull \<or> recentActivities sample_request_with_key > 0)
                        (req_dealId sample_request_with_key) 14 steps sample_world)
                   \<in> {Inl TypeError, Inr None})"
    using b e by simp
  have x: "map (\<lambda>r. day (row_dueDate r) - day (today sample_runtime))
         (persisted_since sample_world
            (snd (outreach_plan sample_runtime sample_request sample_world))) = [0, 3, 7]"
    using fallback_persists_three_steps [OF a(1,2,3) c d] a(4) by blast
  have y: "map row_intent (persisted_since sample_world
                       (snd (outreach_plan sample_runtime sample_request_with_key sample_world)))
       = [''first_contact'', ''nurture_checkin'', ''post_call_summary'']"
    using fallback_persists_three_steps [OF b(1,2,3) c d t] by blast
  show ?thesis
    using x y d e by blast
qed

end
